theory Spec2Isabelle
  imports Complex_Main "HOL-Library.Sublist"
begin

section \<open>The number type of the component\<close>

text \<open>
  Every \<open>number\<close> of \<open>student-goals.tsx\<close> is an IEEE 754 binary64 value. A value is
  \<open>NaN\<close>, an infinity, the negative zero, or a finite rational (\<open>Fin 0\<close> is the
  positive zero). The arithmetic of the language rounds the exact result to the nearest
  binary64 value, ties to the even significand. \<open>Fin x\<close> stands for a number of the program
  when \<open>x\<close> is a binary64 value, as every integer up to \<open>2\<^sup>5\<^sup>3\<close> in magnitude is, and as
  every result of \<open>to_double\<close> is (\<open>to_double_of_int\<close> and \<open>to_double_idem\<close> below).
\<close>

datatype number = NaN | PInf | NInf | NegZero | Fin rat

function bit_length :: "int \<Rightarrow> nat" where
  "bit_length n = (if n \<le> 0 then 0 else Suc (bit_length (n div 2)))"
  by pat_completeness auto
termination
  by (relation "measure nat") auto

declare bit_length.simps [simp del]

text \<open>\<open>floor_log2 x\<close> is the exponent \<open>L\<close> with \<open>2\<^sup>L \<le> x < 2\<^sup>L\<^sup>+\<^sup>1\<close>, for \<open>0 < x\<close>.\<close>

definition floor_log2 :: "rat \<Rightarrow> int" where
  "floor_log2 x =
     (if 1 \<le> x then int (bit_length \<lfloor>x\<rfloor>) - 1
      else - int (bit_length (\<lceil>1 / x\<rceil> - 1)))"

definition round_half_even :: "rat \<Rightarrow> int" where
  "round_half_even x =
     (let f = \<lfloor>x\<rfloor>; r = x - of_int f
      in if r < 1 / 2 then f
         else if 1 / 2 < r then f + 1
         else if even f then f else f + 1)"

text \<open>
  Rounding of a positive rational to 53 significant bits; below \<open>2\<^sup>-\<^sup>1\<^sup>0\<^sup>2\<^sup>2\<close> the spacing
  stays \<open>2\<^sup>-\<^sup>1\<^sup>0\<^sup>7\<^sup>4\<close> (subnormal values).
\<close>

definition round_binary64 :: "rat \<Rightarrow> rat" where
  "round_binary64 x =
     (let e = max (floor_log2 x - 52) (- 1074)
      in of_int (round_half_even (x / 2 powi e)) * 2 powi e)"

definition to_double :: "rat \<Rightarrow> number" where
  "to_double x =
     (if x = 0 then Fin 0
      else let m = round_binary64 \<bar>x\<bar>
           in if 0 < x then (if 2 ^ 1024 \<le> m then PInf else Fin m)
              else (if 2 ^ 1024 \<le> m then NInf
                    else if m = 0 then NegZero else Fin (- m)))"

fun is_inf :: "number \<Rightarrow> bool" where
  "is_inf PInf = True"
| "is_inf NInf = True"
| "is_inf _ = False"

fun is_zero :: "number \<Rightarrow> bool" where
  "is_zero NegZero = True"
| "is_zero (Fin x) = (x = 0)"
| "is_zero _ = False"

fun is_neg :: "number \<Rightarrow> bool" where
  "is_neg NInf = True"
| "is_neg NegZero = True"
| "is_neg (Fin x) = (x < 0)"
| "is_neg _ = False"

fun val :: "number \<Rightarrow> rat" where
  "val (Fin x) = x"
| "val _ = 0"

definition signed_inf :: "bool \<Rightarrow> number" where
  "signed_inf negative = (if negative then NInf else PInf)"

definition signed_zero :: "bool \<Rightarrow> number" where
  "signed_zero negative = (if negative then NegZero else Fin 0)"

text \<open>The operator \<open>/\<close> on numbers.\<close>

definition js_div :: "number \<Rightarrow> number \<Rightarrow> number" where
  "js_div a b =
     (if a = NaN \<or> b = NaN then NaN
      else if is_inf a then
        (if is_inf b then NaN else signed_inf (is_neg a \<noteq> is_neg b))
      else if is_inf b then signed_zero (is_neg a \<noteq> is_neg b)
      else if is_zero b then
        (if is_zero a then NaN else signed_inf (is_neg a \<noteq> is_neg b))
      else if is_zero a then signed_zero (is_neg a \<noteq> is_neg b)
      else to_double (val a / val b))"

text \<open>The operator \<open>*\<close> on numbers.\<close>

definition js_mul :: "number \<Rightarrow> number \<Rightarrow> number" where
  "js_mul a b =
     (if a = NaN \<or> b = NaN then NaN
      else if is_inf a \<or> is_inf b then
        (if is_zero a \<or> is_zero b then NaN else signed_inf (is_neg a \<noteq> is_neg b))
      else if is_zero a \<or> is_zero b then signed_zero (is_neg a \<noteq> is_neg b)
      else to_double (val a * val b))"

text \<open>The operators \<open><\<close> and \<open>>=\<close>: false on \<open>NaN\<close>, the two zeros compare equal.\<close>

definition js_less :: "number \<Rightarrow> number \<Rightarrow> bool" where
  "js_less a b =
     (a \<noteq> NaN \<and> b \<noteq> NaN \<and> a \<noteq> b \<and>
      (a = NInf \<or> b = PInf \<or> (\<not> is_inf a \<and> \<not> is_inf b \<and> val a < val b)))"

definition js_ge :: "number \<Rightarrow> number \<Rightarrow> bool" where
  "js_ge a b = (a \<noteq> NaN \<and> b \<noteq> NaN \<and> \<not> js_less a b)"

text \<open>
  \<open>Math.round\<close>: the nearest integer, a tie going up; a result of zero keeps the sign of
  the argument.
\<close>

fun Math_round :: "number \<Rightarrow> number" where
  "Math_round (Fin x) =
     (let r = \<lfloor>x + 1 / 2\<rfloor> in if r = 0 then signed_zero (x < 0) else Fin (of_int r))"
| "Math_round a = a"

text \<open>\<open>Math.min\<close> of two numbers: \<open>NaN\<close> if either is; the negative zero is below the positive.\<close>

definition Math_min :: "number \<Rightarrow> number \<Rightarrow> number" where
  "Math_min a b =
     (if a = NaN \<or> b = NaN then NaN
      else if js_less a b then a
      else if js_less b a then b
      else if a = NegZero then a else b)"

text \<open>The operand test of \<open>||\<close>: zero and \<open>NaN\<close> are falsy.\<close>

definition truthy :: "number \<Rightarrow> bool" where
  "truthy a = (a \<noteq> NaN \<and> \<not> is_zero a)"

section \<open>The progress classifier\<close>

definition getProgressPercentage :: "number \<Rightarrow> number \<Rightarrow> number" where
  "getProgressPercentage current target =
     Math_min (Math_round (js_mul (js_div current target) (Fin 100))) (Fin 100)"

definition getStatusColor :: "number \<Rightarrow> string" where
  "getStatusColor percentage =
     (if js_ge percentage (Fin 100) then ''bg-green-500''
      else if js_ge percentage (Fin 75) then ''bg-blue-500''
      else if js_ge percentage (Fin 50) then ''bg-yellow-500''
      else ''bg-slate-400'')"

record Badge =
  className :: string
  children :: string

definition getStatusBadge :: "number \<Rightarrow> Badge" where
  "getStatusBadge percentage =
     (if js_ge percentage (Fin 100) then
        \<lparr>className = ''bg-green-100 text-green-700'', children = ''Completed''\<rparr>
      else if js_ge percentage (Fin 75) then
        \<lparr>className = ''bg-blue-100 text-blue-700'', children = ''Almost There''\<rparr>
      else if js_ge percentage (Fin 50) then
        \<lparr>className = ''bg-yellow-100 text-yellow-700'', children = ''In Progress''\<rparr>
      else \<lparr>className = ''bg-slate-100 text-slate-700'', children = ''Just Started''\<rparr>)"

section \<open>Goals, cards and the component\<close>

record Goal =
  goal_id :: number
  goal_type :: string
  target :: number
  current :: number
  date :: string

record TodayProgress =
  completed_today :: number

record WeekProgress =
  completed_week :: number

text \<open>
  What a \<open>GoalCard\<close> shows: the props \<open>goal\<close> and \<open>type\<close> (here \<open>kind\<close>), icon and title,
  the status badge, the goal id handed to the delete mutation on confirmation, the
  "progress of target problems" line, and the percentage (text and progress bar value).
\<close>

record Card =
  goal :: Goal
  kind :: string
  icon :: string
  title :: string
  badge :: Badge
  deleteGoalId :: number
  shownProgress :: number
  shownTarget :: number
  percentage :: number

definition GoalCard :: "Goal \<Rightarrow> number \<Rightarrow> string \<Rightarrow> Card" where
  "GoalCard g progress type =
     (let pct = getProgressPercentage progress (target g)
      in \<lparr>goal = g, kind = type,
          icon = (if type = ''daily'' then ''Clock'' else ''Calendar''),
          title = (if type = ''daily'' then ''Daily Goal'' else ''Weekly Goal''),
          badge = getStatusBadge pct,
          deleteGoalId = goal_id g,
          shownProgress = progress,
          shownTarget = target g,
          percentage = pct\<rparr>)"

datatype View = EmptyState string string | Cards "Card list"

fun cards :: "View \<Rightarrow> Card list" where
  "cards (EmptyState _ _) = []"
| "cards (Cards cs) = cs"

text \<open>\<open>x || 0\<close> on an optional number: absent, zero and \<open>NaN\<close> all give \<open>0\<close>.\<close>

definition or_zero :: "number option \<Rightarrow> number" where
  "or_zero v = (case v of None \<Rightarrow> Fin 0 | Some x \<Rightarrow> if truthy x then x else Fin 0)"

text \<open>
  The component as a function of the data of its three queries (\<open>None\<close> is
  \<open>undefined\<close>: nothing fetched, or the fetch failed).
\<close>

definition StudentGoals ::
  "Goal list option \<Rightarrow> TodayProgress option \<Rightarrow> WeekProgress option \<Rightarrow> View" where
  "StudentGoals goals todayProgress weekProgress =
     (case goals of
        None \<Rightarrow> EmptyState ''No goals set yet''
                  ''Set a daily or weekly goal to track your progress''
      | Some gs \<Rightarrow>
          if length gs = 0 then
            EmptyState ''No goals set yet''
              ''Set a daily or weekly goal to track your progress''
          else
            let dailyGoal = find (\<lambda>g. goal_type g = ''daily'') gs;
                weeklyGoal = find (\<lambda>g. goal_type g = ''weekly'') gs
            in Cards
                 ((case dailyGoal of
                     None \<Rightarrow> []
                   | Some g \<Rightarrow>
                       [GoalCard g (or_zero (map_option completed_today todayProgress))
                          ''daily'']) @
                  (case weeklyGoal of
                     None \<Rightarrow> []
                   | Some g \<Rightarrow>
                       [GoalCard g (or_zero (map_option completed_week weekProgress))
                          ''weekly''])))"

section \<open>The delete mutation and the query cache\<close>

type_synonym QueryKey = "string list"

datatype QueryData =
  GoalsData "Goal list" | TodayData TodayProgress | WeekData WeekProgress

record Query =
  data :: "QueryData option"
  isInvalidated :: bool

record Toast =
  toast_title :: string
  description :: string
  variant :: "string option"

text \<open>A request \<open>DELETE /api/student/{student}/goals/{goal}\<close>, kept by its parts.\<close>

record Request =
  http_method :: string
  student :: string
  goal_ref :: number

record Client =
  queries :: "QueryKey \<Rightarrow> Query option"
  toasts :: "Toast list"
  requests :: "Request list"

definition goalsKey :: "string \<Rightarrow> QueryKey" where
  "goalsKey studentRegNo = [''/api/student'', studentRegNo, ''goals'']"

definition todayProgressKey :: "string \<Rightarrow> QueryKey" where
  "todayProgressKey studentRegNo = [''/api/student'', studentRegNo, ''today-progress'']"

definition weekProgressKey :: "string \<Rightarrow> QueryKey" where
  "weekProgressKey studentRegNo = [''/api/student'', studentRegNo, ''week-progress'']"

text \<open>
  Modelled from the spec: the client-side cache/query layer is an external collaborator
  that "caches by key, and invalidates/refetches on mutation success". Invalidating a key
  marks stale every cached query whose key starts with it; the data stays until a refetch.
\<close>

definition invalidateQueries :: "QueryKey \<Rightarrow> Client \<Rightarrow> Client" where
  "invalidateQueries key c =
     c\<lparr>queries := (\<lambda>k. if prefix key k
                          then map_option (\<lambda>q. q\<lparr>isInvalidated := True\<rparr>) (queries c k)
                          else queries c k)\<rparr>"

text \<open>
  Modelled from the spec: the notification surface is an external collaborator; a
  notification is appended to the list of those shown.
\<close>

definition toast :: "Toast \<Rightarrow> Client \<Rightarrow> Client" where
  "toast t c = c\<lparr>toasts := toasts c @ [t]\<rparr>"

text \<open>
  What \<open>apiRequest\<close> did: it threw, or it returned a response whose \<open>json()\<close> resolves
  (\<open>Returned True\<close>) or rejects (\<open>Returned False\<close>).
\<close>

datatype ApiResult = Threw | Returned bool

text \<open>\<open>mutationFn\<close>: sends the request; resolves when the request and \<open>res.json()\<close> do.\<close>

definition mutationFn :: "string \<Rightarrow> number \<Rightarrow> ApiResult \<Rightarrow> Client \<Rightarrow> bool \<times> Client" where
  "mutationFn studentRegNo goalId api c =
     (api = Returned True,
      c\<lparr>requests := requests c @
         [\<lparr>http_method = ''DELETE'', student = studentRegNo, goal_ref = goalId\<rparr>]\<rparr>)"

definition onSuccess :: "string \<Rightarrow> Client \<Rightarrow> Client" where
  "onSuccess studentRegNo c =
     toast \<lparr>toast_title = ''Goal Deleted'',
            description = ''Your goal has been deleted successfully.'',
            variant = None\<rparr>
       (invalidateQueries [''/api/student'', studentRegNo, ''goals''] c)"

definition onError :: "Client \<Rightarrow> Client" where
  "onError c =
     toast \<lparr>toast_title = ''Error'',
            description = ''Failed to delete goal. Please try again.'',
            variant = Some ''destructive''\<rparr> c"

text \<open>
  Modelled from the spec: \<open>deleteGoalMutation.mutate\<close> runs \<open>mutationFn\<close> once ("no retry";
  the mutation declares no retry option) and then \<open>onSuccess\<close> if it resolved, \<open>onError\<close>
  if it rejected.
\<close>

definition mutate :: "string \<Rightarrow> number \<Rightarrow> ApiResult \<Rightarrow> Client \<Rightarrow> Client" where
  "mutate studentRegNo goalId api c =
     (case mutationFn studentRegNo goalId api c of
        (resolved, c1) \<Rightarrow> if resolved then onSuccess studentRegNo c1 else onError c1)"

text \<open>The three \<open>useQuery\<close> reads and the component rendered from the cache.\<close>

definition useQuery :: "QueryKey \<Rightarrow> Client \<Rightarrow> QueryData option" where
  "useQuery key c = (case queries c key of None \<Rightarrow> None | Some q \<Rightarrow> data q)"

definition render :: "string \<Rightarrow> Client \<Rightarrow> View" where
  "render studentRegNo c =
     StudentGoals
       (case useQuery (goalsKey studentRegNo) c of Some (GoalsData gs) \<Rightarrow> Some gs | _ \<Rightarrow> None)
       (case useQuery (todayProgressKey studentRegNo) c of Some (TodayData t) \<Rightarrow> Some t | _ \<Rightarrow> None)
       (case useQuery (weekProgressKey studentRegNo) c of Some (WeekData w) \<Rightarrow> Some w | _ \<Rightarrow> None)"

section \<open>Reference definitions, from the specification\<close>

text \<open>A percentage proper: a whole number between 0 and 100.\<close>

fun is_percentage :: "number \<Rightarrow> bool" where
  "is_percentage (Fin x) = (0 \<le> x \<and> x \<le> 100 \<and> of_int \<lfloor>x\<rfloor> = x)"
| "is_percentage _ = False"

text \<open>
  The specified percentage \<open>clamp(round(100 \<times> progress / target), 0, 100)\<close> in exact
  arithmetic, for a given rounding \<open>rnd\<close> to the nearest integer; \<open>round_half_up\<close> and
  \<open>round_half_down\<close> send a tie to the upper and to the lower neighbour, \<open>round_half_even\<close>
  (above) to the even one.
\<close>

definition round_half_up :: "rat \<Rightarrow> int" where
  "round_half_up x = \<lfloor>x + 1 / 2\<rfloor>"

definition round_half_down :: "rat \<Rightarrow> int" where
  "round_half_down x = \<lceil>x - 1 / 2\<rceil>"

definition spec_percentage :: "(rat \<Rightarrow> int) \<Rightarrow> nat \<Rightarrow> nat \<Rightarrow> int" where
  "spec_percentage rnd progress tgt =
     max 0 (min (rnd (100 * of_nat progress / of_nat tgt)) 100)"

text \<open>The specified correspondence of status labels and colour tiers.\<close>

definition tier_color :: "string \<Rightarrow> string" where
  "tier_color label =
     (if label = ''Completed'' then ''bg-green-500''
      else if label = ''Almost There'' then ''bg-blue-500''
      else if label = ''In Progress'' then ''bg-yellow-500''
      else ''bg-slate-400'')"

definition tier_label :: "string \<Rightarrow> string" where
  "tier_label color =
     (if color = ''bg-green-500'' then ''Completed''
      else if color = ''bg-blue-500'' then ''Almost There''
      else if color = ''bg-yellow-500'' then ''In Progress''
      else ''Just Started'')"

text \<open>The order on the non-negative numbers and \<open>+Infinity\<close>, used in the proofs.\<close>

fun ext_le :: "number \<Rightarrow> number \<Rightarrow> bool" where
  "ext_le (Fin x) (Fin y) = (0 \<le> x \<and> x \<le> y)"
| "ext_le (Fin x) PInf = (0 \<le> x)"
| "ext_le PInf PInf = True"
| "ext_le _ _ = False"

section \<open>Rounding to binary64\<close>

lemma bit_length_pos: "0 < n \<Longrightarrow> 0 < bit_length n"
  by (subst bit_length.simps) simp

lemma bit_length_bounds:
  "0 < n \<Longrightarrow> 2 ^ (bit_length n - 1) \<le> n \<and> n < 2 ^ bit_length n"
proof (induction n rule: bit_length.induct)
  case (1 n)
  show ?case
  proof (cases "n = 1")
    case True
    then show ?thesis by (simp add: bit_length.simps)
  next
    case False
    with "1.prems" have half: "0 < n div 2" by simp
    with "1.IH" "1.prems" have ih: "2 ^ (bit_length (n div 2) - 1) \<le> n div 2"
      "n div 2 < 2 ^ bit_length (n div 2)" by auto
    have bl: "bit_length n = Suc (bit_length (n div 2))"
      using "1.prems" by (subst bit_length.simps) simp
    obtain k where k: "bit_length (n div 2) = Suc k"
      using bit_length_pos [OF half] by (cases "bit_length (n div 2)") auto
    from ih k have "2 * 2 ^ k \<le> 2 * (n div 2)" by simp
    also have "\<dots> \<le> n" by simp
    finally have lo: "2 ^ (bit_length n - 1) \<le> n" by (simp add: bl k)
    from ih(2) have "n div 2 + 1 \<le> 2 ^ bit_length (n div 2)" by simp
    then have "2 * (n div 2) + 2 \<le> 2 * 2 ^ bit_length (n div 2)" by simp
    moreover have "n \<le> 2 * (n div 2) + 1" by presburger
    ultimately have hi: "n < 2 ^ bit_length n" by (simp add: bl)
    from lo hi show ?thesis by simp
  qed
qed

lemma floor_log2_bounds:
  assumes "0 < x"
  shows "2 powi floor_log2 x \<le> x \<and> x < 2 powi (floor_log2 x + 1)"
proof (cases "1 \<le> x")
  case True
  define n where "n = \<lfloor>x\<rfloor>"
  have npos: "0 < n" using True by (simp add: n_def)
  define k where "k = bit_length n"
  have kpos: "0 < k" using bit_length_pos [OF npos] by (simp add: k_def)
  have b: "2 ^ (k - 1) \<le> n" "n < 2 ^ k"
    using bit_length_bounds [OF npos] by (simp_all add: k_def)
  have fl: "floor_log2 x = int k - 1"
    using True by (simp add: floor_log2_def n_def k_def)
  have "(2::rat) ^ (k - 1) = of_int (2 ^ (k - 1))" by simp
  also have "\<dots> \<le> of_int n" using b(1) by (simp only: of_int_le_iff)
  also have "\<dots> \<le> x" by (simp add: n_def)
  finally have lo: "(2::rat) ^ (k - 1) \<le> x" .
  have "n + 1 \<le> 2 ^ k" using b(2) by simp
  then have "(of_int (n + 1) :: rat) \<le> of_int (2 ^ k)" by (simp only: of_int_le_iff)
  moreover have "x < of_int (n + 1)" unfolding n_def by linarith
  ultimately have hi: "x < 2 ^ k" by simp
  have e1: "(2::rat) powi (int k - 1) = 2 ^ (k - 1)"
    using kpos by (simp add: power_int_def nat_diff_distrib)
  have e2: "(2::rat) powi (int k - 1 + 1) = 2 ^ k" by simp
  show ?thesis using lo hi by (simp only: fl e1 e2)
next
  case False
  define r where "r = 1 / x"
  have r1: "1 < r" using False assms by (simp add: r_def)
  define m where "m = \<lceil>r\<rceil> - 1"
  have mpos: "0 < m" using r1 by (simp add: m_def less_ceiling_iff)
  define k where "k = bit_length m"
  have kpos: "0 < k" using bit_length_pos [OF mpos] by (simp add: k_def)
  have b: "2 ^ (k - 1) \<le> m" "m < 2 ^ k"
    using bit_length_bounds [OF mpos] by (simp_all add: k_def)
  have fl: "floor_log2 x = - int k"
    using False by (simp add: floor_log2_def m_def k_def r_def)
  have mr: "of_int m < r" unfolding m_def by linarith
  have "(of_int (2 ^ (k - 1)) :: rat) \<le> of_int m"
    using b(1) by (simp only: of_int_le_iff)
  then have "(2::rat) ^ (k - 1) \<le> of_int m" by simp
  with mr have lo: "(2::rat) ^ (k - 1) < r" by linarith
  have "m + 1 \<le> 2 ^ k" using b(2) by simp
  then have "(of_int (m + 1) :: rat) \<le> of_int (2 ^ k)" by (simp only: of_int_le_iff)
  moreover have "r \<le> of_int (m + 1)" unfolding m_def by simp
  ultimately have hi: "r \<le> 2 ^ k" by simp
  have x_eq: "x = 1 / r" using assms by (simp add: r_def)
  have rpos: "0 < r" using r1 by simp
  have A: "1 / (2::rat) ^ k \<le> x"
    unfolding x_eq using hi rpos by (simp add: frac_le)
  have B: "x < 1 / (2::rat) ^ (k - 1)"
    unfolding x_eq using lo by (simp add: frac_less2)
  have e1: "(2::rat) powi (- int k) = 1 / 2 ^ k"
    by (simp add: power_int_minus_divide)
  have "- int k + 1 = - int (k - 1)" using kpos by simp
  then have e2: "(2::rat) powi (- int k + 1) = 1 / 2 ^ (k - 1)"
    by (simp only: power_int_minus_divide power_int_of_nat)
  show ?thesis using A B by (simp only: fl e1 e2)
qed

lemma floor_log2_eqI:
  assumes "2 powi L \<le> x" "x < 2 powi (L + 1)"
  shows "floor_log2 x = L"
proof -
  have "(0::rat) < 2 powi L" by simp
  with assms(1) have xpos: "0 < x" by linarith
  note b = floor_log2_bounds [OF xpos]
  have "(2::rat) powi L < 2 powi (floor_log2 x + 1)" using assms(1) b by simp
  then have 1: "L < floor_log2 x + 1"
    by (metis not_less power_int_increasing one_le_numeral)
  have "(2::rat) powi floor_log2 x < 2 powi (L + 1)" using assms(2) b by simp
  then have 2: "floor_log2 x < L + 1"
    by (metis not_less power_int_increasing one_le_numeral)
  from 1 2 show ?thesis by simp
qed

lemma floor_log2_mono:
  assumes "0 < x" "x \<le> y"
  shows "floor_log2 x \<le> floor_log2 y"
proof -
  have ypos: "0 < y" using assms by simp
  have "(2::rat) powi floor_log2 x < 2 powi (floor_log2 y + 1)"
    using floor_log2_bounds [OF assms(1)] floor_log2_bounds [OF ypos] assms(2) by simp
  then have "floor_log2 x < floor_log2 y + 1"
    by (metis not_less power_int_increasing one_le_numeral)
  then show ?thesis by simp
qed

lemma round_half_even_of_int: "round_half_even (of_int n) = n"
  by (simp add: round_half_even_def)

lemma round_half_even_bounds:
  "x - 1 / 2 \<le> of_int (round_half_even x) \<and> of_int (round_half_even x) \<le> x + 1 / 2"
proof -
  define f where "f = \<lfloor>x\<rfloor>"
  have fb: "of_int f \<le> x" "x < of_int f + 1"
    unfolding f_def by linarith+
  consider "round_half_even x = f" "x - of_int f \<le> 1 / 2"
    | "round_half_even x = f + 1" "1 / 2 \<le> x - of_int f"
    unfolding round_half_even_def Let_def f_def [symmetric]
    by (cases "x - of_int f < 1 / 2"; cases "1 / 2 < x - of_int f"; cases "even f") simp_all
  then show ?thesis
  proof cases
    case 1
    with fb show ?thesis by simp
  next
    case 2
    with fb show ?thesis by simp
  qed
qed

lemma round_half_even_eqI:
  assumes "of_int n - 1 / 2 < x" "x < of_int n + 1 / 2"
  shows "round_half_even x = n"
proof -
  note b = round_half_even_bounds [of x]
  have "(of_int (round_half_even x) :: rat) < of_int n + 1" using b assms by linarith
  then have "(of_int (round_half_even x) :: rat) < of_int (n + 1)" by simp
  then have 1: "round_half_even x < n + 1" by (simp only: of_int_less_iff)
  have "(of_int n :: rat) < of_int (round_half_even x) + 1" using b assms by linarith
  then have "(of_int n :: rat) < of_int (round_half_even x + 1)" by simp
  then have 2: "n < round_half_even x + 1" by (simp only: of_int_less_iff)
  from 1 2 show ?thesis by simp
qed

lemma round_half_even_mono:
  assumes "x \<le> y"
  shows "round_half_even x \<le> round_half_even y"
proof (rule ccontr)
  assume "\<not> ?thesis"
  then have "round_half_even y + 1 \<le> round_half_even x" by simp
  then have "(of_int (round_half_even y + 1) :: rat) \<le> of_int (round_half_even x)"
    by (simp only: of_int_le_iff)
  then have gap: "(of_int (round_half_even y) :: rat) + 1 \<le> of_int (round_half_even x)"
    by simp
  from round_half_even_bounds [of x] round_half_even_bounds [of y] gap assms
  have "x = y" by linarith
  with \<open>\<not> ?thesis\<close> show False by simp
qed

lemma round_half_even_nonneg: "0 \<le> x \<Longrightarrow> 0 \<le> round_half_even x"
  using round_half_even_mono [of 0 x] round_half_even_of_int [of 0] by simp

lemma round_binary64_nonneg: "0 \<le> x \<Longrightarrow> 0 \<le> round_binary64 x"
  by (simp add: round_binary64_def Let_def round_half_even_nonneg)

lemma round_binary64_mono:
  assumes "0 < x" "x \<le> y"
  shows "round_binary64 x \<le> round_binary64 y"
proof -
  define ex where "ex = max (floor_log2 x - 52) (- 1074)"
  define ey where "ey = max (floor_log2 y - 52) (- 1074)"
  have ypos: "0 < y" using assms by simp
  have le: "ex \<le> ey"
    using floor_log2_mono [OF assms] by (simp add: ex_def ey_def)
  have rx: "round_binary64 x = of_int (round_half_even (x / 2 powi ex)) * 2 powi ex"
    by (simp add: round_binary64_def Let_def ex_def)
  have ry: "round_binary64 y = of_int (round_half_even (y / 2 powi ey)) * 2 powi ey"
    by (simp add: round_binary64_def Let_def ey_def)
  show ?thesis
  proof (cases "ex = ey")
    case True
    have "x / 2 powi ey \<le> y / 2 powi ey"
      using assms(2) by (simp add: divide_right_mono)
    then have "round_half_even (x / 2 powi ey) \<le> round_half_even (y / 2 powi ey)"
      by (rule round_half_even_mono)
    then have "(of_int (round_half_even (x / 2 powi ey)) :: rat)
        \<le> of_int (round_half_even (y / 2 powi ey))"
      by (simp only: of_int_le_iff)
    then show ?thesis
      unfolding rx ry True by (rule mult_right_mono) simp
  next
    case False
    with le have lt: "ex + 1 \<le> ey" by simp
    then have ey_eq: "ey = floor_log2 y - 52" by (simp add: ex_def ey_def)
    have "2 powi (ey + 52) \<le> y"
      using floor_log2_bounds [OF ypos] by (simp add: ey_eq)
    then have "2 powi ey * 2 ^ 52 \<le> y" by (simp add: power_int_add)
    then have "(2::rat) ^ 52 \<le> y / 2 powi ey"
      by (simp add: pos_le_divide_eq mult.commute)
    then have "round_half_even (2 ^ 52) \<le> round_half_even (y / 2 powi ey)"
      by (rule round_half_even_mono)
    moreover have "round_half_even (2 ^ 52) = 2 ^ 52"
      using round_half_even_of_int [of "2 ^ 52"] by simp
    ultimately have "(of_int (2 ^ 52) :: rat) \<le> of_int (round_half_even (y / 2 powi ey))"
      by (simp only: of_int_le_iff)
    then have "(2::rat) ^ 52 * 2 powi ey \<le> round_binary64 y"
      unfolding ry by (intro mult_right_mono) simp_all
    then have lo: "2 powi (ey + 52) \<le> round_binary64 y"
      by (simp add: power_int_add mult.commute)
    have "floor_log2 x + 1 \<le> ex + 53" by (simp add: ex_def)
    then have "(2::rat) powi (floor_log2 x + 1) \<le> 2 powi (ex + 53)"
      by (intro power_int_increasing) simp_all
    with floor_log2_bounds [OF assms(1)] have "x \<le> 2 powi (ex + 53)" by simp
    then have "x \<le> 2 powi ex * 2 ^ 53" by (simp add: power_int_add)
    then have "x / 2 powi ex \<le> (2::rat) ^ 53"
      by (simp add: pos_divide_le_eq mult.commute)
    then have "round_half_even (x / 2 powi ex) \<le> round_half_even (2 ^ 53)"
      by (rule round_half_even_mono)
    moreover have "round_half_even (2 ^ 53) = 2 ^ 53"
      using round_half_even_of_int [of "2 ^ 53"] by simp
    ultimately have "(of_int (round_half_even (x / 2 powi ex)) :: rat) \<le> of_int (2 ^ 53)"
      by (simp only: of_int_le_iff)
    then have "round_binary64 x \<le> (2::rat) ^ 53 * 2 powi ex"
      unfolding rx by (intro mult_right_mono) simp_all
    then have "round_binary64 x \<le> 2 powi (ex + 53)"
      by (simp add: power_int_add mult.commute)
    also have "\<dots> \<le> 2 powi (ey + 52)"
      using lt by (intro power_int_increasing) simp_all
    also note lo
    finally show ?thesis .
  qed
qed

lemma round_binary64_eqI:
  assumes "2 powi L \<le> x" "x < 2 powi (L + 1)" "- 1022 \<le> L"
    and "of_int n - 1 / 2 < x / 2 powi (L - 52)" "x / 2 powi (L - 52) < of_int n + 1 / 2"
  shows "round_binary64 x = of_int n * 2 powi (L - 52)"
proof -
  have "floor_log2 x = L" using assms(1,2) by (rule floor_log2_eqI)
  then have "max (floor_log2 x - 52) (- 1074) = L - 52" using assms(3) by simp
  moreover have "round_half_even (x / 2 powi (L - 52)) = n"
    using assms(4,5) by (rule round_half_even_eqI)
  ultimately show ?thesis by (simp add: round_binary64_def Let_def)
qed

lemma round_binary64_1: "round_binary64 1 = 1"
  using round_binary64_eqI [of 0 1 "2 ^ 52"] by simp

lemma round_binary64_100: "round_binary64 100 = 100"
  using round_binary64_eqI [of 6 100 "100 * 2 ^ 46"] by simp

lemma to_double_pos:
  "0 < x \<Longrightarrow>
   to_double x = (if 2 ^ 1024 \<le> round_binary64 x then PInf else Fin (round_binary64 x))"
  by (simp add: to_double_def Let_def)

lemma to_double_0: "to_double 0 = Fin 0"
  by (simp add: to_double_def)

lemma ext_le_to_double_self: "0 \<le> x \<Longrightarrow> ext_le (to_double x) (to_double x)"
  by (cases "x = 0") (simp_all add: to_double_0 to_double_pos round_binary64_nonneg)

lemma to_double_mono:
  assumes "0 \<le> x" "x \<le> y"
  shows "ext_le (to_double x) (to_double y)"
proof (cases "x = 0")
  case True
  show ?thesis
  proof (cases "y = 0")
    case True
    with \<open>x = 0\<close> show ?thesis by (simp add: to_double_0)
  next
    case False
    with assms True have "0 < y" by simp
    then show ?thesis
      using round_binary64_nonneg [of y] by (simp add: True to_double_0 to_double_pos)
  qed
next
  case False
  with assms have xpos: "0 < x" and ypos: "0 < y" by simp_all
  have m: "round_binary64 x \<le> round_binary64 y"
    using xpos assms(2) by (rule round_binary64_mono)
  have n: "0 \<le> round_binary64 x" using xpos by (simp add: round_binary64_nonneg)
  show ?thesis
    using m n by (simp add: to_double_pos [OF xpos] to_double_pos [OF ypos])
qed

lemma to_double_1: "to_double 1 = Fin 1"
  by (simp add: to_double_pos round_binary64_1)

lemma to_double_100: "to_double 100 = Fin 100"
  by (simp add: to_double_pos round_binary64_100)

lemma js_div_nonneg:
  "0 \<le> p \<Longrightarrow> 0 < t \<Longrightarrow> js_div (Fin p) (Fin t) = to_double (p / t)"
  by (simp add: js_div_def signed_zero_def to_double_0)

lemma js_mul_100_Fin:
  "0 \<le> x \<Longrightarrow> js_mul (Fin x) (Fin 100) = to_double (x * 100)"
  by (simp add: js_mul_def signed_zero_def to_double_0)

lemma js_mul_100_PInf: "js_mul PInf (Fin 100) = PInf"
  by (simp add: js_mul_def signed_inf_def)

lemma ext_le_cases:
  assumes "ext_le a b"
  obtains x y where "a = Fin x" "b = Fin y" "0 \<le> x" "x \<le> y"
  | x where "a = Fin x" "b = PInf" "0 \<le> x"
  | "a = PInf" "b = PInf"
  using assms by (cases a; cases b) auto

lemma ext_le_PInf: "ext_le a a \<Longrightarrow> ext_le a PInf"
  by (cases a) auto

lemma js_mul_100_mono:
  assumes "ext_le a b"
  shows "ext_le (js_mul a (Fin 100)) (js_mul b (Fin 100))"
  using assms
proof (cases rule: ext_le_cases)
  case (1 x y)
  then show ?thesis by (simp add: js_mul_100_Fin to_double_mono)
next
  case (2 x)
  then show ?thesis
    by (simp add: js_mul_100_Fin js_mul_100_PInf ext_le_PInf ext_le_to_double_self)
next
  case 3
  then show ?thesis by (simp add: js_mul_100_PInf)
qed

lemma Math_round_nonneg:
  "0 \<le> x \<Longrightarrow> Math_round (Fin x) = Fin (of_int \<lfloor>x + 1 / 2\<rfloor>)"
  by (simp add: Let_def signed_zero_def)

lemma Math_round_mono:
  assumes "ext_le a b"
  shows "ext_le (Math_round a) (Math_round b)"
  using assms
proof (cases rule: ext_le_cases)
  case (1 x y)
  then have "\<lfloor>x + 1 / 2\<rfloor> \<le> \<lfloor>y + 1 / 2\<rfloor>" by (intro floor_mono) simp
  moreover have "0 \<le> \<lfloor>x + 1 / 2\<rfloor>" using 1 by simp
  ultimately show ?thesis
    using 1 by (simp add: Math_round_nonneg del: Math_round.simps)
next
  case (2 x)
  then have "0 \<le> \<lfloor>x + 1 / 2\<rfloor>" by simp
  with 2 show ?thesis by (simp add: Math_round_nonneg del: Math_round.simps(1))
next
  case 3
  then show ?thesis by simp
qed

lemma Math_min_100_Fin: "Math_min (Fin x) (Fin 100) = Fin (min x 100)"
  by (simp add: Math_min_def js_less_def min_def)

lemma Math_min_100_PInf: "Math_min PInf (Fin 100) = Fin 100"
  by (simp add: Math_min_def js_less_def)

lemma Math_min_100_mono:
  assumes "ext_le a b"
  shows "ext_le (Math_min a (Fin 100)) (Math_min b (Fin 100))"
  using assms
  by (cases rule: ext_le_cases) (simp_all add: Math_min_100_Fin Math_min_100_PInf)

lemma ext_le_js_ge: "ext_le a b \<Longrightarrow> js_ge b a"
  by (cases a; cases b) (auto simp: js_ge_def js_less_def)

lemma percentage_ext_le:
  assumes "0 < t" "0 \<le> p1" "p1 \<le> p2"
  shows "ext_le (getProgressPercentage (Fin p1) (Fin t)) (getProgressPercentage (Fin p2) (Fin t))"
proof -
  have "0 \<le> p1 / t" "p1 / t \<le> p2 / t"
    using assms by (simp_all add: divide_right_mono)
  then have "ext_le (to_double (p1 / t)) (to_double (p2 / t))" by (rule to_double_mono)
  then have "ext_le (js_div (Fin p1) (Fin t)) (js_div (Fin p2) (Fin t))"
    using assms by (simp add: js_div_nonneg)
  then show ?thesis
    unfolding getProgressPercentage_def
    by (intro Math_min_100_mono Math_round_mono js_mul_100_mono)
qed

lemma is_percentage_clamp:
  assumes "ext_le a a"
  shows "is_percentage (Math_min (Math_round a) (Fin 100))"
  using assms
proof (cases rule: ext_le_cases)
  case (1 x y)
  define n where "n = \<lfloor>x + 1 / 2\<rfloor>"
  have n0: "0 \<le> n" using 1 by (simp add: n_def)
  have r: "Math_round a = Fin (of_int n)"
    using 1 by (simp add: Math_round_nonneg n_def del: Math_round.simps)
  show ?thesis
  proof (cases "n \<le> 100")
    case True
    then have "min (of_int n) (100::rat) = of_int n" by simp
    with n0 True show ?thesis by (simp add: r Math_min_100_Fin)
  next
    case False
    then have "min (of_int n) (100::rat) = 100" by simp
    then show ?thesis by (simp add: r Math_min_100_Fin)
  qed
next
  case (2 x)
  then show ?thesis by simp
next
  case 3
  then show ?thesis by (simp add: Math_min_100_PInf)
qed

lemma percentage_is_percentage:
  assumes "0 < t" "0 \<le> p"
  shows "is_percentage (getProgressPercentage (Fin p) (Fin t))"
proof -
  have "0 \<le> p / t" using assms by simp
  then have "ext_le (to_double (p / t)) (to_double (p / t))" by (rule ext_le_to_double_self)
  then have "ext_le (js_div (Fin p) (Fin t)) (js_div (Fin p) (Fin t))"
    using assms by (simp add: js_div_nonneg)
  then have "ext_le (js_mul (js_div (Fin p) (Fin t)) (Fin 100))
     (js_mul (js_div (Fin p) (Fin t)) (Fin 100))"
    by (rule js_mul_100_mono)
  then show ?thesis
    unfolding getProgressPercentage_def by (rule is_percentage_clamp)
qed

lemma floor_rat_numeral_div:
  "\<lfloor>numeral a / numeral b :: rat\<rfloor> = numeral a div numeral b"
  by (metis floor_divide_of_int_eq of_int_numeral)

lemma Math_round_100: "Math_round (Fin 100) = Fin 100"
  by (simp add: Math_round_nonneg floor_rat_numeral_div del: Math_round.simps(1))

lemma percentage_full:
  assumes "0 < t" "t \<le> p"
  shows "getProgressPercentage (Fin p) (Fin t) = Fin 100"
proof -
  have "ext_le (getProgressPercentage (Fin t) (Fin t)) (getProgressPercentage (Fin p) (Fin t))"
    using assms by (intro percentage_ext_le) simp_all
  moreover have "getProgressPercentage (Fin t) (Fin t) = Fin 100"
    using assms(1)
    by (simp add: getProgressPercentage_def js_div_nonneg to_double_1 js_mul_100_Fin
        to_double_100 Math_min_100_Fin Math_round_100 del: Math_round.simps(1))
  moreover have "is_percentage (getProgressPercentage (Fin p) (Fin t))"
    using assms by (intro percentage_is_percentage) simp_all
  ultimately show ?thesis
    by (cases "getProgressPercentage (Fin p) (Fin t)") auto
qed

section \<open>The binary64 values\<close>

text \<open>
  Rounding leaves a binary64 value as it is: the integers up to \<open>2\<^sup>5\<^sup>3\<close> in magnitude are
  such values, and so is every result of \<open>to_double\<close>.
\<close>

lemma round_binary64_exact:
  assumes m: "0 < m" "m < 2 ^ 53" and e: "- 1074 \<le> e"
  shows "round_binary64 (of_int m * 2 powi e) = of_int m * 2 powi e"
proof -
  define x :: rat where "x = of_int m * 2 powi e"
  have xpos: "0 < x" using m(1) by (simp add: x_def)
  define e' where "e' = max (floor_log2 x - 52) (- 1074)"
  have "(of_int m :: rat) < of_int (2 ^ 53)" using m(2) by (simp only: of_int_less_iff)
  then have "x < 2 ^ 53 * 2 powi e"
    unfolding x_def by (intro mult_strict_right_mono) simp_all
  then have "x < 2 powi (e + 53)" by (simp add: power_int_add mult.commute)
  with floor_log2_bounds [OF xpos] have "(2::rat) powi floor_log2 x < 2 powi (e + 53)"
    by linarith
  then have "floor_log2 x < e + 53"
    by (metis not_less power_int_increasing one_le_numeral)
  then have le: "e' \<le> e" using e by (simp add: e'_def)
  define k where "k = nat (e - e')"
  have ek: "e = e' + int k" using le by (simp add: k_def)
  have "x / 2 powi e' = of_int m * 2 ^ k"
    by (simp add: x_def ek power_int_add)
  also have "\<dots> = of_int (m * 2 ^ k)" by simp
  finally have q: "x / 2 powi e' = of_int (m * 2 ^ k)" .
  have "round_binary64 x = of_int (round_half_even (x / 2 powi e')) * 2 powi e'"
    by (simp add: round_binary64_def Let_def e'_def)
  also have "\<dots> = of_int (m * 2 ^ k) * 2 powi e'"
    by (simp only: q round_half_even_of_int)
  also have "\<dots> = x" by (simp add: x_def ek power_int_add)
  finally show ?thesis by (simp add: x_def)
qed

lemma round_binary64_significand:
  assumes "0 < x"
  obtains m e where "round_binary64 x = of_int m * 2 powi e" "0 \<le> m" "m \<le> 2 ^ 53" "- 1074 \<le> e"
proof -
  define e where "e = max (floor_log2 x - 52) (- 1074)"
  define m where "m = round_half_even (x / 2 powi e)"
  have rb: "round_binary64 x = of_int m * 2 powi e"
    by (simp add: round_binary64_def Let_def e_def m_def)
  have "0 \<le> x / 2 powi e" using assms by simp
  then have m0: "0 \<le> m" unfolding m_def by (rule round_half_even_nonneg)
  have "floor_log2 x + 1 \<le> e + 53" by (simp add: e_def)
  then have "(2::rat) powi (floor_log2 x + 1) \<le> 2 powi (e + 53)"
    by (intro power_int_increasing) simp_all
  with floor_log2_bounds [OF assms] have "x \<le> 2 powi (e + 53)" by simp
  then have "x \<le> 2 powi e * 2 ^ 53" by (simp add: power_int_add)
  then have "x / 2 powi e \<le> (2::rat) ^ 53"
    by (simp add: pos_divide_le_eq mult.commute)
  then have "m \<le> round_half_even (2 ^ 53)"
    unfolding m_def by (rule round_half_even_mono)
  moreover have "round_half_even (2 ^ 53) = 2 ^ 53"
    using round_half_even_of_int [of "2 ^ 53"] by simp
  ultimately have m1: "m \<le> 2 ^ 53" by simp
  have "- 1074 \<le> e" by (simp add: e_def)
  with rb m0 m1 show ?thesis by (rule that)
qed

lemma round_binary64_0: "round_binary64 0 = 0"
  by (simp add: round_binary64_def Let_def round_half_even_of_int [of 0, simplified])

lemma round_binary64_idem:
  assumes "0 < x"
  shows "round_binary64 (round_binary64 x) = round_binary64 x"
proof -
  from assms obtain m e where rb: "round_binary64 x = of_int m * 2 powi e"
    and m: "0 \<le> m" "m \<le> 2 ^ 53" and e: "- 1074 \<le> e"
    by (rule round_binary64_significand)
  consider "m = 0" | "0 < m" "m < 2 ^ 53" | "m = 2 ^ 53" using m by linarith
  then show ?thesis
  proof cases
    case 1
    then show ?thesis by (simp add: rb round_binary64_0)
  next
    case 2
    then show ?thesis unfolding rb using e by (rule round_binary64_exact)
  next
    case 3
    have "(of_int m :: rat) * 2 powi e = of_int (2 ^ 52) * 2 powi (e + 1)"
      by (simp add: 3 power_int_add)
    moreover have "round_binary64 (of_int (2 ^ 52) * 2 powi (e + 1)) =
        of_int (2 ^ 52) * 2 powi (e + 1)"
      using e by (intro round_binary64_exact) simp_all
    ultimately show ?thesis by (simp only: rb)
  qed
qed

lemma to_double_idem:
  assumes "to_double x = Fin y"
  shows "to_double y = Fin y"
proof (cases "x = 0")
  case True
  with assms show ?thesis by (simp add: to_double_def)
next
  case False
  define a where "a = \<bar>x\<bar>"
  have apos: "0 < a" using False by (simp add: a_def)
  define m where "m = round_binary64 a"
  have idem: "round_binary64 m = m" unfolding m_def using apos by (rule round_binary64_idem)
  have m0: "0 \<le> m" unfolding m_def using apos by (simp add: round_binary64_nonneg)
  show ?thesis
  proof (cases "0 < x")
    case True
    with assms False have y: "y = m" "m < 2 ^ 1024"
      by (simp_all add: to_double_def Let_def a_def [symmetric] m_def [symmetric]
          split: if_splits)
    show ?thesis
    proof (cases "m = 0")
      case True
      then show ?thesis by (simp add: y to_double_def)
    next
      case False
      with m0 have "0 < m" by simp
      then show ?thesis using y idem by (simp add: to_double_pos)
    qed
  next
    case neg: False
    with assms False have y: "y = - m" "m < 2 ^ 1024" "m \<noteq> 0"
      by (simp_all add: to_double_def Let_def a_def [symmetric] m_def [symmetric]
          split: if_splits)
    with m0 have "0 < m" by simp
    then show ?thesis
      using y idem by (simp add: to_double_def Let_def)
  qed
qed

lemma to_double_of_int:
  assumes "\<bar>n\<bar> \<le> 2 ^ 53"
  shows "to_double (of_int n) = Fin (of_int n)"
proof -
  have pos: "round_binary64 (of_int k) = of_int k" if "0 < k" "k \<le> 2 ^ 53" for k :: int
  proof (cases "k = 2 ^ 53")
    case True
    have "round_binary64 (of_int (2 ^ 52) * 2 powi 1) = of_int (2 ^ 52) * 2 powi 1"
      by (intro round_binary64_exact) simp_all
    then show ?thesis by (simp add: True)
  next
    case False
    with that have "k < 2 ^ 53" by simp
    with that(1) have "round_binary64 (of_int k * 2 powi 0) = of_int k * 2 powi 0"
      by (intro round_binary64_exact) simp_all
    then show ?thesis by simp
  qed
  have small: "(of_int k :: rat) < 2 ^ 1024" if "k \<le> 2 ^ 53" for k :: int
  proof -
    have "(of_int k :: rat) \<le> of_int (2 ^ 53)" using that by (simp only: of_int_le_iff)
    also have "\<dots> = 2 ^ 53" by simp
    also have "(2::rat) ^ 53 < 2 ^ 1024" by (rule power_strict_increasing) simp_all
    finally show ?thesis .
  qed
  consider "n = 0" | "0 < n" | "n < 0" by linarith
  then show ?thesis
  proof cases
    case 1
    then show ?thesis by (simp add: to_double_def)
  next
    case 2
    with assms have "n \<le> 2 ^ 53" by simp
    with 2 show ?thesis
      using pos [of n] small [of n] by (simp add: to_double_pos)
  next
    case 3
    with assms have b: "0 < - n" "- n \<le> 2 ^ 53" by simp_all
    have "\<bar>of_int n :: rat\<bar> = of_int (- n)" using 3 by simp
    then show ?thesis
      using pos [OF b] small [OF b(2)] 3 b
      by (simp add: to_double_def Let_def)
  qed
qed

section \<open>Evaluating the classifier\<close>

lemma to_double_evalI:
  assumes "2 powi L \<le> x" "x < 2 powi (L + 1)" "- 1022 \<le> L"
    and "of_int n - 1 / 2 < x / 2 powi (L - 52)" "x / 2 powi (L - 52) < of_int n + 1 / 2"
    and "of_int n * 2 powi (L - 52) < (2::rat) ^ 1024"
  shows "to_double x = Fin (of_int n * 2 powi (L - 52))"
proof -
  have "(0::rat) < 2 powi L" by simp
  with assms(1) have xpos: "0 < x" by linarith
  have "round_binary64 x = of_int n * 2 powi (L - 52)"
    using assms(1-5) by (rule round_binary64_eqI)
  with assms(6) show ?thesis by (simp add: to_double_pos [OF xpos])
qed

lemma percentage_evalI:
  assumes "0 \<le> p" "0 < t"
    and "to_double (p / t) = Fin y" "0 \<le> y"
    and "to_double (y * 100) = Fin z" "0 \<le> z"
    and "of_int k \<le> z + 1 / 2" "z + 1 / 2 < of_int k + 1" "k \<le> 100"
  shows "getProgressPercentage (Fin p) (Fin t) = Fin (of_int k)"
proof -
  have "\<lfloor>z + 1 / 2\<rfloor> = k" using assms(7,8) by (rule floor_unique)
  then have "Math_round (Fin z) = Fin (of_int k)"
    using assms(6) by (simp add: Math_round_nonneg del: Math_round.simps(1))
  moreover have "min (of_int k) (100::rat) = of_int k" using assms(9) by simp
  ultimately show ?thesis
    using assms(1-5)
    by (simp add: getProgressPercentage_def js_div_nonneg js_mul_100_Fin Math_min_100_Fin
        del: Math_round.simps(1))
qed

lemma percentage_23_40: "getProgressPercentage (Fin 23) (Fin 40) = Fin 57"
proof -
  have a: "to_double (23 / 40) = Fin (5179139571476070 / 2 ^ 53)"
    using to_double_evalI [of "- 1" "23 / 40" 5179139571476070] by simp
  have b: "to_double (5179139571476070 / 2 ^ 53 * 100) = Fin (8092405580431359 / 2 ^ 47)"
    using to_double_evalI [of 5 "5179139571476070 / 2 ^ 53 * 100" 8092405580431359] by simp
  show ?thesis
    using percentage_evalI [OF _ _ a _ b, of 57] by simp
qed

lemma percentage_75_100: "getProgressPercentage (Fin 75) (Fin 100) = Fin 75"
proof -
  have a: "to_double (75 / 100) = Fin (3 / 4)"
    using to_double_evalI [of "- 1" "75 / 100" 6755399441055744] by simp
  have b: "to_double (3 / 4 * 100) = Fin 75"
    using to_double_evalI [of 6 "3 / 4 * 100" 5277655813324800] by simp
  show ?thesis
    using percentage_evalI [OF _ _ a _ b, of 75] by simp
qed

lemma percentage_50_100: "getProgressPercentage (Fin 50) (Fin 100) = Fin 50"
proof -
  have a: "to_double (50 / 100) = Fin (1 / 2)"
    using to_double_evalI [of "- 1" "50 / 100" 4503599627370496] by simp
  have b: "to_double (1 / 2 * 100) = Fin 50"
    using to_double_evalI [of 5 "1 / 2 * 100" 7036874417766400] by simp
  show ?thesis
    using percentage_evalI [OF _ _ a _ b, of 50] by simp
qed

lemma percentage_49_100: "getProgressPercentage (Fin 49) (Fin 100) = Fin 49"
proof -
  have a: "to_double (49 / 100) = Fin (8827055269646172 / 2 ^ 54)"
    using to_double_evalI [of "- 2" "49 / 100" 8827055269646172] by simp
  have b: "to_double (8827055269646172 / 2 ^ 54 * 100) = Fin 49"
    using to_double_evalI [of 5 "8827055269646172 / 2 ^ 54 * 100" 6896136929411072] by simp
  show ?thesis
    using percentage_evalI [OF _ _ a _ b, of 49] by simp
qed

lemma label_Fin:
  "children (getStatusBadge (Fin x)) =
     (if 100 \<le> x then ''Completed''
      else if 75 \<le> x then ''Almost There''
      else if 50 \<le> x then ''In Progress''
      else ''Just Started'')"
  by (simp add: getStatusBadge_def js_ge_def js_less_def not_less)

lemma color_Fin:
  "getStatusColor (Fin x) =
     (if 100 \<le> x then ''bg-green-500''
      else if 75 \<le> x then ''bg-blue-500''
      else if 50 \<le> x then ''bg-yellow-500''
      else ''bg-slate-400'')"
  by (simp add: getStatusColor_def js_ge_def js_less_def not_less)

lemma Math_min_100_upper: "\<not> js_less (Fin 100) (Math_min a (Fin 100))"
  by (cases a) (auto simp: Math_min_def js_less_def)

lemma percentage_never_exceeds:
  "\<not> js_less (Fin 100) (getProgressPercentage a b)"
  unfolding getProgressPercentage_def by (rule Math_min_100_upper)

section \<open>The rounding error of the percentage\<close>

lemma round_binary64_error:
  assumes "2 powi (- 1022) \<le> x"
  shows "\<bar>round_binary64 x - x\<bar> \<le> x / 2 ^ 53"
proof -
  have "(0::rat) < 2 powi (- 1022)" by (rule zero_less_power_int) simp
  with assms have xpos: "0 < x" by linarith
  define L where "L = floor_log2 x"
  have b: "2 powi L \<le> x" "x < 2 powi (L + 1)"
    using floor_log2_bounds [OF xpos] by (simp_all add: L_def)
  have "(2::rat) powi (- 1022) < 2 powi (L + 1)" using assms b(2) by linarith
  then have "- 1022 < L + 1"
    by (metis not_less power_int_increasing one_le_numeral)
  then have Lge: "- 1022 \<le> L" by simp
  define e where "e = L - 52"
  define s where "s = (2::rat) powi e"
  have spos: "0 < s" by (simp add: s_def)
  define m where "m = round_half_even (x / s)"
  have mx: "max (floor_log2 x - 52) (- 1074) = e"
    using Lge by (simp add: e_def L_def)
  have rb: "round_binary64 x = of_int m * s"
    unfolding round_binary64_def Let_def mx m_def s_def ..
  have near: "\<bar>of_int m - x / s\<bar> \<le> 1 / 2"
    using round_half_even_bounds [of "x / s"] unfolding m_def by linarith
  have "round_binary64 x - x = (of_int m - x / s) * s"
    using spos by (simp add: rb left_diff_distrib)
  then have "\<bar>round_binary64 x - x\<bar> = \<bar>of_int m - x / s\<bar> * s"
    using spos by (simp add: abs_mult)
  also have "\<dots> \<le> 1 / 2 * s"
    using near spos by (intro mult_right_mono) simp_all
  also have "s = 2 powi L / 2 ^ 52"
    by (simp add: s_def e_def power_int_diff)
  also have "1 / 2 * (2 powi L / 2 ^ 52) = 2 powi L / (2::rat) ^ 53" by simp
  also have "\<dots> \<le> x / 2 ^ 53"
    using b(1) by (simp add: divide_right_mono)
  finally show ?thesis .
qed

lemma tiny_bound: "(2::rat) powi (- 1022) \<le> 1 / 2 ^ 45"
proof -
  have "(2::rat) powi (- 1022) \<le> 2 powi (- 45)"
    by (rule power_int_increasing) simp_all
  then show ?thesis by (simp add: power_int_minus_divide)
qed

lemma product_error:
  assumes "1 / 2 ^ 44 \<le> q" "q < 1"
  obtains z where "js_mul (to_double q) (Fin 100) = Fin z" "\<bar>z - 100 * q\<bar> < 1 / 2 ^ 45"
proof -
  have qpos: "0 < q" using assms(1) by (rule less_le_trans [rotated]) simp
  define y where "y = round_binary64 q"
  have "2 powi (- 1022) \<le> q" using tiny_bound assms(1) by simp
  then have "\<bar>y - q\<bar> \<le> q / 2 ^ 53" unfolding y_def by (rule round_binary64_error)
  then have ey: "\<bar>y - q\<bar> \<le> q / 9007199254740992" by simp
  have q44: "1 / 17592186044416 \<le> q" using assms(1) by simp
  have "1 / 35184372088832 \<le> y" using ey q44 by linarith
  then have ylo: "1 / 2 ^ 45 \<le> y" by simp
  have yhi: "y < 2" using ey assms(2) by linarith
  have ypos: "0 < y" using ylo by (rule less_le_trans [rotated]) simp
  have dy: "to_double q = Fin y"
    using yhi by (simp add: to_double_pos [OF qpos] y_def [symmetric])
  define z where "z = round_binary64 (y * 100)"
  have "2 powi (- 1022) \<le> y * 100" using tiny_bound ylo by simp
  then have "\<bar>z - y * 100\<bar> \<le> y * 100 / 2 ^ 53"
    unfolding z_def by (rule round_binary64_error)
  then have ez: "\<bar>z - y * 100\<bar> \<le> y * 100 / 9007199254740992" by simp
  have zhi: "z < 2 ^ 1024"
  proof -
    have "z < 1000" using ez yhi by linarith
    also have "(1000::rat) < 2 ^ 10" by simp
    also have "(2::rat) ^ 10 \<le> 2 ^ 1024" by (rule power_increasing) simp_all
    finally show ?thesis .
  qed
  have y100: "0 < y * 100" using ypos by simp
  have dz: "js_mul (to_double q) (Fin 100) = Fin z"
    using zhi ypos by (simp add: dy js_mul_100_Fin to_double_pos [OF y100] z_def [symmetric])
  have "\<bar>z - 100 * q\<bar> < 1 / 35184372088832"
    using ey ez assms(2) qpos by linarith
  then have "\<bar>z - 100 * q\<bar> < 1 / 2 ^ 45" by simp
  with dz show ?thesis by (rule that)
qed

lemma half_gap_above:
  fixes p t :: nat and n :: int
  assumes t: "0 < t" "t < 2 ^ 44"
    and gt: "of_int n + 1 / 2 < (100 * of_nat p / of_nat t :: rat)"
  shows "of_int n + 1 / 2 + 1 / 2 ^ 45 \<le> (100 * of_nat p / of_nat t :: rat)"
proof -
  define T :: rat where "T = of_nat t"
  define P :: rat where "P = of_nat p"
  have Tpos: "0 < T" using t(1) by (simp add: T_def)
  have "(of_nat t :: rat) < of_nat (2 ^ 44)" using t(2) by (simp only: of_nat_less_iff)
  then have Tlt: "T < 2 ^ 44" by (simp add: T_def)
  from gt have "(of_int n + 1 / 2) * T < 100 * P"
    using Tpos by (simp add: T_def P_def pos_less_divide_eq)
  then have "(2 * of_int n + 1) * T < 200 * P" by (simp add: algebra_simps)
  then have "(of_int ((2 * n + 1) * int t) :: rat) < of_int (200 * int p)"
    by (simp add: T_def P_def)
  then have "(2 * n + 1) * int t < 200 * int p" by (simp only: of_int_less_iff)
  then have "(2 * n + 1) * int t + 1 \<le> 200 * int p" by simp
  then have "(of_int ((2 * n + 1) * int t + 1) :: rat) \<le> of_int (200 * int p)"
    by (simp only: of_int_le_iff)
  then have i: "(2 * of_int n + 1) * T + 1 \<le> 200 * P" by (simp add: T_def P_def)
  have "2 * T \<le> 2 ^ 45" using Tlt by simp
  then have eps: "1 / 2 ^ 45 \<le> 1 / (2 * T)" using Tpos by (intro frac_le) simp_all
  have "of_int n + 1 / 2 + 1 / (2 * T) = ((2 * of_int n + 1) * T + 1) / (2 * T)"
    using Tpos by (simp add: field_simps)
  also have "\<dots> \<le> 200 * P / (2 * T)"
    using i Tpos by (intro divide_right_mono) simp_all
  also have "\<dots> = 100 * P / T" by simp
  finally have "of_int n + 1 / 2 + 1 / (2 * T) \<le> 100 * P / T" .
  with eps show ?thesis unfolding T_def P_def by linarith
qed

lemma half_gap_below:
  fixes p t :: nat and n :: int
  assumes t: "0 < t" "t < 2 ^ 44"
    and lt: "(100 * of_nat p / of_nat t :: rat) < of_int n - 1 / 2"
  shows "(100 * of_nat p / of_nat t :: rat) \<le> of_int n - 1 / 2 - 1 / 2 ^ 45"
proof -
  define T :: rat where "T = of_nat t"
  define P :: rat where "P = of_nat p"
  have Tpos: "0 < T" using t(1) by (simp add: T_def)
  have "(of_nat t :: rat) < of_nat (2 ^ 44)" using t(2) by (simp only: of_nat_less_iff)
  then have Tlt: "T < 2 ^ 44" by (simp add: T_def)
  from lt have "100 * P < (of_int n - 1 / 2) * T"
    using Tpos by (simp add: T_def P_def pos_divide_less_eq)
  then have "200 * P < (2 * of_int n - 1) * T" by (simp add: algebra_simps)
  then have "(of_int (200 * int p) :: rat) < of_int ((2 * n - 1) * int t)"
    by (simp add: T_def P_def)
  then have "200 * int p < (2 * n - 1) * int t" by (simp only: of_int_less_iff)
  then have "200 * int p + 1 \<le> (2 * n - 1) * int t" by simp
  then have "(of_int (200 * int p + 1) :: rat) \<le> of_int ((2 * n - 1) * int t)"
    by (simp only: of_int_le_iff)
  then have i: "200 * P \<le> (2 * of_int n - 1) * T - 1" by (simp add: T_def P_def)
  have "2 * T \<le> 2 ^ 45" using Tlt by simp
  then have eps: "1 / 2 ^ 45 \<le> 1 / (2 * T)" using Tpos by (intro frac_le) simp_all
  have "100 * P / T = 200 * P / (2 * T)" by simp
  also have "\<dots> \<le> ((2 * of_int n - 1) * T - 1) / (2 * T)"
    using i Tpos by (intro divide_right_mono) simp_all
  also have "\<dots> = of_int n - 1 / 2 - 1 / (2 * T)"
    using Tpos by (simp add: field_simps)
  finally have "100 * P / T \<le> of_int n - 1 / 2 - 1 / (2 * T)" .
  with eps show ?thesis unfolding T_def P_def by linarith
qed

lemma percentage_zero_progress:
  "0 < t \<Longrightarrow> getProgressPercentage (Fin 0) (Fin t) = Fin 0"
  using percentage_evalI [of 0 t 0 0 0] by (simp add: to_double_0)

lemma percentage_nearest:
  fixes p t :: nat
  assumes t: "0 < t" "t < 2 ^ 44"
  shows "getProgressPercentage (Fin (of_nat p)) (Fin (of_nat t)) =
      Fin (of_int (spec_percentage round_half_up p t)) \<or>
    getProgressPercentage (Fin (of_nat p)) (Fin (of_nat t)) =
      Fin (of_int (spec_percentage round_half_down p t))"
proof -
  define x :: rat where "x = 100 * of_nat p / of_nat t"
  have Tpos: "(0::rat) < of_nat t" using t(1) by simp
  consider "p = 0" | "0 < p" "p < t" | "t \<le> p" by linarith
  then show ?thesis
  proof cases
    case 1
    have "spec_percentage round_half_up p t = 0"
      by (simp add: 1 spec_percentage_def round_half_up_def floor_rat_numeral_div)
    then show ?thesis
      using Tpos by (simp add: 1 percentage_zero_progress)
  next
    case 3
    then have "(of_nat t :: rat) \<le> of_nat p" by (simp only: of_nat_le_iff)
    with Tpos have full: "getProgressPercentage (Fin (of_nat p)) (Fin (of_nat t)) = Fin 100"
      by (rule percentage_full)
    have "100 \<le> x"
      using \<open>(of_nat t :: rat) \<le> of_nat p\<close> Tpos by (simp add: x_def pos_le_divide_eq)
    then have "100 \<le> \<lfloor>x + 1 / 2\<rfloor>" by (simp add: le_floor_iff)
    then have "spec_percentage round_half_up p t = 100"
      by (simp add: spec_percentage_def round_half_up_def x_def)
    with full show ?thesis by simp
  next
    case 2
    define q :: rat where "q = of_nat p / of_nat t"
    have xq: "x = 100 * q" by (simp add: x_def q_def)
    have "(of_nat p :: rat) < of_nat t" using 2(2) by (simp only: of_nat_less_iff)
    then have q1: "q < 1" using Tpos by (simp add: q_def)
    have "(of_nat t :: rat) < of_nat (2 ^ 44)" using t(2) by (simp only: of_nat_less_iff)
    then have Tlt: "(of_nat t :: rat) \<le> 2 ^ 44" by simp
    have "(1::rat) \<le> of_nat p" using 2(1) by simp
    then have "1 / 2 ^ 44 \<le> 1 / (of_nat t :: rat)" "1 / (of_nat t :: rat) \<le> q"
      using Tpos Tlt by (simp_all add: q_def frac_le divide_right_mono)
    then have q0: "1 / 2 ^ 44 \<le> q" by linarith
    from q0 q1 obtain z where z: "js_mul (to_double q) (Fin 100) = Fin z"
      and "\<bar>z - 100 * q\<bar> < 1 / 2 ^ 45"
      by (rule product_error)
    then have err: "\<bar>z - x\<bar> < 1 / 35184372088832" by (simp add: xq)
    have q0': "1 / 17592186044416 \<le> q" using q0 by simp
    have zpos: "0 \<le> z" using err q0' xq by linarith
    define n where "n = \<lfloor>z + 1 / 2\<rfloor>"
    have nz: "of_int n \<le> z + 1 / 2" "z + 1 / 2 < of_int n + 1"
      unfolding n_def by linarith+
    have "0 \<le> n" using zpos by (simp add: n_def)
    have "z + 1 / 2 < 101" using err q1 xq by linarith
    then have "n < 101" by (simp add: n_def floor_less_iff)
    then have "n \<le> 100" by simp
    have pct: "getProgressPercentage (Fin (of_nat p)) (Fin (of_nat t)) = Fin (of_int n)"
    proof -
      have "Math_round (Fin z) = Fin (of_int n)"
        using zpos by (simp add: Math_round_nonneg n_def del: Math_round.simps(1))
      moreover have "min (of_int n) (100::rat) = of_int n" using \<open>n \<le> 100\<close> by simp
      ultimately show ?thesis
        using Tpos z
        by (simp add: getProgressPercentage_def js_div_nonneg q_def [symmetric]
            Math_min_100_Fin del: Math_round.simps(1))
    qed
    have lo: "of_int n - 1 / 2 \<le> x"
    proof (rule ccontr)
      assume "\<not> ?thesis"
      then have "x < of_int n - 1 / 2" by simp
      then have "x \<le> of_int n - 1 / 2 - 1 / 2 ^ 45"
        unfolding x_def using t by (intro half_gap_below)
      then have "x \<le> of_int n - 1 / 2 - 1 / 35184372088832" by simp
      with err nz show False by linarith
    qed
    have hi: "x \<le> of_int n + 1 / 2"
    proof (rule ccontr)
      assume "\<not> ?thesis"
      then have "of_int n + 1 / 2 < x" by simp
      then have "of_int n + 1 / 2 + 1 / 2 ^ 45 \<le> x"
        unfolding x_def using t by (intro half_gap_above)
      then have "of_int n + 1 / 2 + 1 / 35184372088832 \<le> x" by simp
      with err nz show False by linarith
    qed
    have clamp: "max 0 (min n 100) = n" using \<open>0 \<le> n\<close> \<open>n \<le> 100\<close> by simp
    show ?thesis
    proof (cases "x < of_int n + 1 / 2")
      case True
      have "\<lfloor>x + 1 / 2\<rfloor> = n"
        using lo True by (intro floor_unique) linarith+
      then have "spec_percentage round_half_up p t = n"
        using clamp by (simp add: spec_percentage_def round_half_up_def x_def)
      with pct show ?thesis by simp
    next
      case False
      with hi have "x - 1 / 2 = of_int n" by linarith
      then have "\<lceil>x - 1 / 2\<rceil> = n" by simp
      then have "spec_percentage round_half_down p t = n"
        using clamp by (simp add: spec_percentage_def round_half_down_def x_def)
      with pct show ?thesis by simp
    qed
  qed
qed

section \<open>Zero targets, card selection and the mutation callbacks\<close>

lemma percentage_zero_zero: "getProgressPercentage (Fin 0) (Fin 0) = NaN"
  by (simp add: getProgressPercentage_def js_div_def js_mul_def Math_min_def)

lemma percentage_pos_zero:
  "0 < p \<Longrightarrow> getProgressPercentage (Fin p) (Fin 0) = Fin 100"
  by (simp add: getProgressPercentage_def js_div_def signed_inf_def js_mul_100_PInf
      Math_min_100_PInf)

lemma percentage_pos_negzero:
  "0 < p \<Longrightarrow> getProgressPercentage (Fin p) NegZero = NInf"
  by (simp add: getProgressPercentage_def js_div_def signed_inf_def js_mul_def
      Math_min_def js_less_def)

lemma ext_le_val:
  "ext_le a b \<Longrightarrow> is_percentage a \<Longrightarrow> is_percentage b \<Longrightarrow> val a \<le> val b"
  by (cases a; cases b) auto

lemma find_take_filter:
  "(case find P xs of None \<Rightarrow> [] | Some x \<Rightarrow> [x]) = take 1 (filter P xs)"
  by (induction xs) simp_all

lemma cards_daily:
  "map goal (filter (\<lambda>c. kind c = ''daily'') (cards (StudentGoals (Some gs) tp wp))) =
   take 1 (filter (\<lambda>g. goal_type g = ''daily'') gs)"
proof (cases gs)
  case Nil
  then show ?thesis by (simp add: StudentGoals_def)
next
  case (Cons g gs')
  then have "cards (StudentGoals (Some gs) tp wp) =
      (case find (\<lambda>g. goal_type g = ''daily'') gs of None \<Rightarrow> []
       | Some g \<Rightarrow> [GoalCard g (or_zero (map_option completed_today tp)) ''daily'']) @
      (case find (\<lambda>g. goal_type g = ''weekly'') gs of None \<Rightarrow> []
       | Some g \<Rightarrow> [GoalCard g (or_zero (map_option completed_week wp)) ''weekly''])"
    by (simp add: StudentGoals_def Let_def)
  then have "map goal (filter (\<lambda>c. kind c = ''daily'') (cards (StudentGoals (Some gs) tp wp))) =
      (case find (\<lambda>g. goal_type g = ''daily'') gs of None \<Rightarrow> [] | Some g \<Rightarrow> [g])"
    by (simp add: GoalCard_def Let_def split: option.split)
  then show ?thesis by (simp only: find_take_filter)
qed

lemma cards_weekly:
  "map goal (filter (\<lambda>c. kind c = ''weekly'') (cards (StudentGoals (Some gs) tp wp))) =
   take 1 (filter (\<lambda>g. goal_type g = ''weekly'') gs)"
proof (cases gs)
  case Nil
  then show ?thesis by (simp add: StudentGoals_def)
next
  case (Cons g gs')
  then have "cards (StudentGoals (Some gs) tp wp) =
      (case find (\<lambda>g. goal_type g = ''daily'') gs of None \<Rightarrow> []
       | Some g \<Rightarrow> [GoalCard g (or_zero (map_option completed_today tp)) ''daily'']) @
      (case find (\<lambda>g. goal_type g = ''weekly'') gs of None \<Rightarrow> []
       | Some g \<Rightarrow> [GoalCard g (or_zero (map_option completed_week wp)) ''weekly''])"
    by (simp add: StudentGoals_def Let_def)
  then have "map goal (filter (\<lambda>c. kind c = ''weekly'') (cards (StudentGoals (Some gs) tp wp))) =
      (case find (\<lambda>g. goal_type g = ''weekly'') gs of None \<Rightarrow> [] | Some g \<Rightarrow> [g])"
    by (simp add: GoalCard_def Let_def split: option.split)
  then show ?thesis by (simp only: find_take_filter)
qed

lemma cards_length: "length (cards (StudentGoals goals tp wp)) \<le> 2"
  by (simp add: StudentGoals_def Let_def split: option.splits)

lemma mutate_resolved:
  "mutate r g (Returned True) c =
     toast \<lparr>toast_title = ''Goal Deleted'',
            description = ''Your goal has been deleted successfully.'',
            variant = None\<rparr>
       (invalidateQueries (goalsKey r)
          (c\<lparr>requests := requests c @ [\<lparr>http_method = ''DELETE'', student = r, goal_ref = g\<rparr>]\<rparr>))"
  by (simp add: mutate_def mutationFn_def onSuccess_def goalsKey_def)

lemma mutate_rejected:
  "api \<noteq> Returned True \<Longrightarrow>
   mutate r g api c =
     toast \<lparr>toast_title = ''Error'',
            description = ''Failed to delete goal. Please try again.'',
            variant = Some ''destructive''\<rparr>
       (c\<lparr>requests := requests c @ [\<lparr>http_method = ''DELETE'', student = r, goal_ref = g\<rparr>]\<rparr>)"
  by (simp add: mutate_def mutationFn_def onError_def)

lemma queries_mutate_resolved:
  "queries (mutate r g (Returned True) c) k =
     (if prefix (goalsKey r) k
      then map_option (\<lambda>q. q\<lparr>isInvalidated := True\<rparr>) (queries c k)
      else queries c k)"
  by (simp add: mutate_resolved toast_def invalidateQueries_def)

lemma toasts_mutate_resolved:
  "toasts (mutate r g (Returned True) c) =
     toasts c @ [\<lparr>toast_title = ''Goal Deleted'',
                  description = ''Your goal has been deleted successfully.'',
                  variant = None\<rparr>]"
  by (simp add: mutate_resolved toast_def invalidateQueries_def)

lemma progress_keys_not_goals:
  "\<not> prefix (goalsKey r) (todayProgressKey r)" "\<not> prefix (goalsKey r) (weekProgressKey r)"
  by (simp_all add: goalsKey_def todayProgressKey_def weekProgressKey_def)

lemma render_cong:
  "queries c' = queries c \<Longrightarrow> render r c' = render r c"
  by (simp add: render_def useQuery_def)

section \<open>The claims\<close>

text \<open>
  Claim C1 as stated fails. The claim: for every non-negative integer
  progress and positive integer target the percentage is
  \<open>clamp(round(100 \<times> progress / target), 0, 100)\<close>. With progress 23 and target 40 the
  exact value is 57.5, which rounds to 58 whether a tie goes away from zero or to the even
  neighbour. The code divides first: the quotient 23 / 40 is rounded to binary64, its
  product with 100 is rounded again to \<open>57.49999999999999\<close>, and \<open>Math.round\<close> gives 57.
\<close>

theorem progress_23_of_40_shows_57:
  "getProgressPercentage (Fin 23) (Fin 40) = Fin 57 \<and>
   spec_percentage round_half_up 23 40 = 58 \<and>
   spec_percentage round_half_even 23 40 = 58 \<and>
   getProgressPercentage (Fin 23) (Fin 40) \<noteq> Fin (of_int (spec_percentage round_half_up 23 40)) \<and>
   getProgressPercentage (Fin 23) (Fin 40) \<noteq> Fin (of_int (spec_percentage round_half_even 23 40))"
proof -
  have "spec_percentage round_half_up 23 40 = 58"
    by (simp add: spec_percentage_def round_half_up_def floor_rat_numeral_div)
  moreover have "spec_percentage round_half_even 23 40 = 58"
    by (simp add: spec_percentage_def round_half_even_def floor_rat_numeral_div Let_def)
  ultimately show ?thesis using percentage_23_40 by simp
qed

text \<open>
  Claim C1, amended: for every non-negative integer progress and positive integer target
  below \<open>2\<^sup>4\<^sup>4\<close> the percentage is a whole number between 0 and 100, namely
  \<open>100 \<times> progress / target\<close> rounded to a nearest integer and clamped. It is
  \<open>min(round(100 \<times> progress / target), 100)\<close> whenever \<open>100 \<times> progress / target\<close> is not
  exactly halfway between two integers (both roundings below then agree); at such a tie
  it is one of the two neighbours.
\<close>

theorem percentage_is_nearest_integer:
  fixes p t :: nat
  assumes "0 < t" "t < 2 ^ 44"
  shows "(getProgressPercentage (Fin (of_nat p)) (Fin (of_nat t)) =
       Fin (of_int (spec_percentage round_half_up p t)) \<or>
     getProgressPercentage (Fin (of_nat p)) (Fin (of_nat t)) =
       Fin (of_int (spec_percentage round_half_down p t))) \<and>
    is_percentage (getProgressPercentage (Fin (of_nat p)) (Fin (of_nat t)))"
proof -
  have "(0::rat) < of_nat t" "(0::rat) \<le> of_nat p" using assms(1) by simp_all
  then have "is_percentage (getProgressPercentage (Fin (of_nat p)) (Fin (of_nat t)))"
    by (rule percentage_is_percentage)
  with percentage_nearest [OF assms, of p] show ?thesis by simp
qed

text \<open>Claim C1, amended, at progress 3, target 10.\<close>

theorem percentage_is_nearest_integer_witness:
  "(0::nat) < 10 \<and> (10::nat) < 2 ^ 44 \<and>
   (getProgressPercentage (Fin (of_nat 3)) (Fin (of_nat 10)) =
      Fin (of_int (spec_percentage round_half_up 3 10)) \<or>
    getProgressPercentage (Fin (of_nat 3)) (Fin (of_nat 10)) =
      Fin (of_int (spec_percentage round_half_down 3 10))) \<and>
   is_percentage (getProgressPercentage (Fin (of_nat 3)) (Fin (of_nat 10)))"
proof -
  have h: "(0::nat) < 10" "(10::nat) < 2 ^ 44" by simp_all
  from h percentage_is_nearest_integer [OF h, of 3] show ?thesis by blast
qed

text \<open>
  Claim C2: for all progress \<open>\<ge>\<close> target \<open>> 0\<close> (rational, so in particular integer; over-achievement
  included) the classifier returns percentage 100 and the status label is "Completed";
  and for any pair of numbers at all the percentage never compares greater than 100.
\<close>

theorem reached_target_is_completed:
  assumes "0 < t" "t \<le> p"
  shows "getProgressPercentage (Fin p) (Fin t) = Fin 100 \<and>
    children (getStatusBadge (getProgressPercentage (Fin p) (Fin t))) = ''Completed'' \<and>
    \<not> js_less (Fin 100) (getProgressPercentage a b)"
proof -
  have "getProgressPercentage (Fin p) (Fin t) = Fin 100"
    using assms by (rule percentage_full)
  then show ?thesis
    by (simp add: label_Fin percentage_never_exceeds)
qed

text \<open>Claim C2 at progress 12, target 10.\<close>

theorem reached_target_is_completed_witness:
  "(0::rat) < 10 \<and> (10::rat) \<le> 12 \<and>
   getProgressPercentage (Fin 12) (Fin 10) = Fin 100 \<and>
   children (getStatusBadge (getProgressPercentage (Fin 12) (Fin 10))) = ''Completed'' \<and>
   \<not> js_less (Fin 100) (getProgressPercentage (Fin 250) (Fin 10))"
proof -
  have h: "(0::rat) < 10" "(10::rat) \<le> 12" by simp_all
  from h reached_target_is_completed [OF h, of "Fin 250" "Fin 10"] show ?thesis by blast
qed

text \<open>
  Claim C3: the status label is a total function of the percentage into four tiers,
  checked from the highest threshold down: \<open>\<ge> 100\<close> "Completed", else \<open>\<ge> 75\<close> "Almost There",
  else \<open>\<ge> 50\<close> "In Progress", otherwise "Just Started" (for every number, with the
  comparison of the language; for a finite value, by its position among 50, 75, 100).
  With target 100, progress 75 gives "Almost There", 50 gives "In Progress" and 49 gives
  "Just Started".
\<close>

theorem status_label_four_tiers:
  "children (getStatusBadge percent) =
     (if js_ge percent (Fin 100) then ''Completed''
      else if js_ge percent (Fin 75) then ''Almost There''
      else if js_ge percent (Fin 50) then ''In Progress''
      else ''Just Started'') \<and>
   children (getStatusBadge (Fin x)) =
     (if 100 \<le> x then ''Completed''
      else if 75 \<le> x then ''Almost There''
      else if 50 \<le> x then ''In Progress''
      else ''Just Started'') \<and>
   children (getStatusBadge percent) \<in>
     set [''Completed'', ''Almost There'', ''In Progress'', ''Just Started''] \<and>
   children (getStatusBadge (getProgressPercentage (Fin 75) (Fin 100))) = ''Almost There'' \<and>
   children (getStatusBadge (getProgressPercentage (Fin 50) (Fin 100))) = ''In Progress'' \<and>
   children (getStatusBadge (getProgressPercentage (Fin 49) (Fin 100))) = ''Just Started''"
proof -
  have "children (getStatusBadge percent) =
     (if js_ge percent (Fin 100) then ''Completed''
      else if js_ge percent (Fin 75) then ''Almost There''
      else if js_ge percent (Fin 50) then ''In Progress''
      else ''Just Started'')"
    by (simp add: getStatusBadge_def)
  moreover have "children (getStatusBadge percent) \<in>
     set [''Completed'', ''Almost There'', ''In Progress'', ''Just Started'']"
    by (simp add: getStatusBadge_def)
  ultimately show ?thesis
    by (simp only: label_Fin percentage_75_100 percentage_50_100 percentage_49_100) simp
qed

text \<open>Claim C3 at the percentages 80 and 20 and at progress 49 of 100.\<close>

theorem status_label_four_tiers_witness:
  "children (getStatusBadge (Fin 80)) = ''Almost There'' \<and>
   children (getStatusBadge (Fin 20)) = ''Just Started'' \<and>
   children (getStatusBadge (getProgressPercentage (Fin 49) (Fin 100))) = ''Just Started''"
proof -
  note t = status_label_four_tiers [of "Fin 80" 20]
  have "children (getStatusBadge (Fin 80)) = ''Almost There''"
    using t [THEN conjunct1] by (simp add: js_ge_def js_less_def)
  moreover have "children (getStatusBadge (Fin 20)) = ''Just Started''"
    using t [THEN conjunct2, THEN conjunct1] by simp
  ultimately show ?thesis using t by blast
qed

text \<open>
  Claim C4 as stated fails: with target 0 and progress 0 the quotient \<open>0 / 0\<close> is \<open>NaN\<close>, and
  \<open>NaN\<close> is what the classifier returns; it is no percentage between 0 and 100.
\<close>

theorem zero_target_zero_progress_is_NaN:
  "getProgressPercentage (Fin 0) (Fin 0) = NaN \<and>
   \<not> is_percentage (getProgressPercentage (Fin 0) (Fin 0))"
  by (simp add: percentage_zero_zero)

text \<open>
  Claim C4, amended: the classifier has no fallback for target 0, and returns a value
  all the same. With target 0 and progress \<open>> 0\<close> the quotient is \<open>+Infinity\<close> and the upper
  clamp gives percentage 100, status "Completed"; with progress 0 it returns \<open>NaN\<close>, and
  the status label falls through to "Just Started"; with the negative zero as target and
  progress \<open>> 0\<close> it returns \<open>-Infinity\<close>.
\<close>

theorem zero_target_without_fallback:
  assumes "0 < p"
  shows "getProgressPercentage (Fin p) (Fin 0) = Fin 100 \<and>
    children (getStatusBadge (getProgressPercentage (Fin p) (Fin 0))) = ''Completed'' \<and>
    getProgressPercentage (Fin 0) (Fin 0) = NaN \<and>
    children (getStatusBadge (getProgressPercentage (Fin 0) (Fin 0))) = ''Just Started'' \<and>
    getProgressPercentage (Fin p) NegZero = NInf"
proof -
  have "children (getStatusBadge NaN) = ''Just Started''"
    by (simp add: getStatusBadge_def js_ge_def)
  then show ?thesis
    using assms
    by (simp add: percentage_zero_zero percentage_pos_zero percentage_pos_negzero label_Fin)
qed

text \<open>Claim C4, amended, at progress 5.\<close>

theorem zero_target_without_fallback_witness:
  "(0::rat) < 5 \<and>
   getProgressPercentage (Fin 5) (Fin 0) = Fin 100 \<and>
   children (getStatusBadge (getProgressPercentage (Fin 5) (Fin 0))) = ''Completed'' \<and>
   getProgressPercentage (Fin 0) (Fin 0) = NaN \<and>
   children (getStatusBadge (getProgressPercentage (Fin 0) (Fin 0))) = ''Just Started'' \<and>
   getProgressPercentage (Fin 5) NegZero = NInf"
proof -
  have h: "(0::rat) < 5" by simp
  from h zero_target_without_fallback [OF h] show ?thesis by blast
qed

text \<open>
  Claim C5: for every percentage the colour tier and the status label change at the same
  thresholds 100, 75 and 50, and correspond one to one: "Completed" with green,
  "Almost There" with blue, "In Progress" with yellow, "Just Started" with slate. Each is
  the image of the other under the specified correspondence.
\<close>

theorem color_tier_matches_status_label:
  "getStatusColor percent = tier_color (children (getStatusBadge percent)) \<and>
   children (getStatusBadge percent) = tier_label (getStatusColor percent) \<and>
   getStatusColor (Fin x) =
     (if 100 \<le> x then ''bg-green-500''
      else if 75 \<le> x then ''bg-blue-500''
      else if 50 \<le> x then ''bg-yellow-500''
      else ''bg-slate-400'') \<and>
   children (getStatusBadge (Fin x)) =
     (if 100 \<le> x then ''Completed''
      else if 75 \<le> x then ''Almost There''
      else if 50 \<le> x then ''In Progress''
      else ''Just Started'')"
proof -
  have "getStatusColor percent = tier_color (children (getStatusBadge percent))"
    by (simp add: getStatusColor_def getStatusBadge_def tier_color_def)
  moreover have "children (getStatusBadge percent) = tier_label (getStatusColor percent)"
    by (simp add: getStatusColor_def getStatusBadge_def tier_label_def)
  ultimately show ?thesis
    by (simp only: color_Fin label_Fin)
qed

text \<open>Claim C5 at the percentage 60.\<close>

theorem color_tier_matches_status_label_witness:
  "getStatusColor (Fin 60) = tier_color (children (getStatusBadge (Fin 60))) \<and>
   children (getStatusBadge (Fin 60)) = tier_label (getStatusColor (Fin 60)) \<and>
   getStatusColor (Fin 60) = ''bg-yellow-500'' \<and>
   children (getStatusBadge (Fin 60)) = ''In Progress''"
proof -
  note t = color_tier_matches_status_label [of "Fin 60" 60]
  have "getStatusColor (Fin 60) = ''bg-yellow-500''"
    using t [THEN conjunct2, THEN conjunct2, THEN conjunct1] by simp
  moreover have "children (getStatusBadge (Fin 60)) = ''In Progress''"
    using t [THEN conjunct2, THEN conjunct2, THEN conjunct2] by simp
  ultimately show ?thesis using t by blast
qed

text \<open>
  Claim C10: for every fixed target \<open>> 0\<close> the percentage is monotone non-decreasing in the
  progress: for \<open>0 \<le> p1 \<le> p2\<close> the percentage at \<open>p1\<close> is at most that at \<open>p2\<close> (both are
  whole numbers between 0 and 100), and from the target on it is constantly 100.
\<close>

theorem percentage_monotone_in_progress:
  assumes "0 < t" "0 \<le> p1" "p1 \<le> p2" "0 \<le> d"
  shows "js_ge (getProgressPercentage (Fin p2) (Fin t)) (getProgressPercentage (Fin p1) (Fin t)) \<and>
    val (getProgressPercentage (Fin p1) (Fin t)) \<le> val (getProgressPercentage (Fin p2) (Fin t)) \<and>
    is_percentage (getProgressPercentage (Fin p1) (Fin t)) \<and>
    is_percentage (getProgressPercentage (Fin p2) (Fin t)) \<and>
    getProgressPercentage (Fin (t + d)) (Fin t) = Fin 100"
proof -
  have le: "ext_le (getProgressPercentage (Fin p1) (Fin t)) (getProgressPercentage (Fin p2) (Fin t))"
    using assms(1-3) by (rule percentage_ext_le)
  have i1: "is_percentage (getProgressPercentage (Fin p1) (Fin t))"
    using assms(1,2) by (rule percentage_is_percentage)
  have "0 \<le> p2" using assms(2,3) by simp
  with assms(1) have i2: "is_percentage (getProgressPercentage (Fin p2) (Fin t))"
    by (rule percentage_is_percentage)
  have "t \<le> t + d" using assms(4) by simp
  with assms(1) have full: "getProgressPercentage (Fin (t + d)) (Fin t) = Fin 100"
    by (rule percentage_full)
  from le i1 i2 full show ?thesis
    by (simp add: ext_le_js_ge ext_le_val)
qed

text \<open>Claim C10 at target 10, progress 3 and 7, and 12 beyond the target.\<close>

theorem percentage_monotone_in_progress_witness:
  "(0::rat) < 10 \<and> (0::rat) \<le> 3 \<and> (3::rat) \<le> 7 \<and> (0::rat) \<le> 2 \<and>
   js_ge (getProgressPercentage (Fin 7) (Fin 10)) (getProgressPercentage (Fin 3) (Fin 10)) \<and>
   val (getProgressPercentage (Fin 3) (Fin 10)) \<le> val (getProgressPercentage (Fin 7) (Fin 10)) \<and>
   is_percentage (getProgressPercentage (Fin 3) (Fin 10)) \<and>
   is_percentage (getProgressPercentage (Fin 7) (Fin 10)) \<and>
   getProgressPercentage (Fin 12) (Fin 10) = Fin 100"
proof -
  have h: "(0::rat) < 10" "(0::rat) \<le> 3" "(3::rat) \<le> 7" "(0::rat) \<le> 2" by simp_all
  have e: "(10::rat) + 2 = 12" by simp
  from h percentage_monotone_in_progress [OF h, unfolded e] show ?thesis by blast
qed

text \<open>
  Claim C6: for every fetched sequence of goals the component shows at most one card per
  kind: the cards of kind "daily" show exactly the first goal of type "daily" in the order
  of the sequence, if there is one, and none otherwise; likewise for "weekly". There are
  no other cards, so a kind without a goal has no card at all.
\<close>

theorem one_card_per_kind_first_match:
  "map goal (filter (\<lambda>c. kind c = ''daily'') (cards (StudentGoals (Some gs) tp wp))) =
     take 1 (filter (\<lambda>g. goal_type g = ''daily'') gs) \<and>
   map goal (filter (\<lambda>c. kind c = ''weekly'') (cards (StudentGoals (Some gs) tp wp))) =
     take 1 (filter (\<lambda>g. goal_type g = ''weekly'') gs) \<and>
   filter (\<lambda>c. kind c \<noteq> ''daily'' \<and> kind c \<noteq> ''weekly'')
     (cards (StudentGoals (Some gs) tp wp)) = [] \<and>
   length (cards (StudentGoals (Some gs) tp wp)) \<le> 2"
proof -
  have "filter (\<lambda>c. kind c \<noteq> ''daily'' \<and> kind c \<noteq> ''weekly'')
     (cards (StudentGoals (Some gs) tp wp)) = []"
    by (simp add: StudentGoals_def GoalCard_def Let_def split: option.splits)
  then show ?thesis
    by (simp only: cards_daily cards_weekly cards_length)
qed

text \<open>Claim C6 at a sequence of a weekly goal followed by two daily goals.\<close>

theorem one_card_per_kind_first_match_witness:
  "map goal (filter (\<lambda>c. kind c = ''daily'')
     (cards (StudentGoals
        (Some [\<lparr>goal_id = Fin 1, goal_type = ''weekly'', target = Fin 20, current = Fin 0, date = ''w''\<rparr>,
               \<lparr>goal_id = Fin 2, goal_type = ''daily'', target = Fin 5, current = Fin 0, date = ''d''\<rparr>,
               \<lparr>goal_id = Fin 3, goal_type = ''daily'', target = Fin 8, current = Fin 0, date = ''e''\<rparr>])
        None None))) =
   [\<lparr>goal_id = Fin 2, goal_type = ''daily'', target = Fin 5, current = Fin 0, date = ''d''\<rparr>]"
  using one_card_per_kind_first_match
    [of "[\<lparr>goal_id = Fin 1, goal_type = ''weekly'', target = Fin 20, current = Fin 0, date = ''w''\<rparr>,
          \<lparr>goal_id = Fin 2, goal_type = ''daily'', target = Fin 5, current = Fin 0, date = ''d''\<rparr>,
          \<lparr>goal_id = Fin 3, goal_type = ''daily'', target = Fin 8, current = Fin 0, date = ''e''\<rparr>]"
        None None, THEN conjunct1]
  by simp

text \<open>
  Claim C7: when the delete succeeds the mutation runs \<open>onSuccess\<close> after the request, and
  \<open>onSuccess\<close> invalidates the goals-list query (its data kept for the refetch) and shows
  the success notification; the today-progress and week-progress queries, and every query
  whose key does not extend the goals key, are left as they were.
\<close>

theorem delete_success_invalidates_goals_only:
  assumes "\<not> prefix (goalsKey r) k"
  shows "mutate r g (Returned True) c = onSuccess r (snd (mutationFn r g (Returned True) c)) \<and>
    queries (mutate r g (Returned True) c) (goalsKey r) =
      map_option (\<lambda>q. q\<lparr>isInvalidated := True\<rparr>) (queries c (goalsKey r)) \<and>
    queries (mutate r g (Returned True) c) (todayProgressKey r) = queries c (todayProgressKey r) \<and>
    queries (mutate r g (Returned True) c) (weekProgressKey r) = queries c (weekProgressKey r) \<and>
    queries (mutate r g (Returned True) c) k = queries c k \<and>
    toasts (mutate r g (Returned True) c) =
      toasts c @ [\<lparr>toast_title = ''Goal Deleted'',
                   description = ''Your goal has been deleted successfully.'',
                   variant = None\<rparr>] \<and>
    queries (onSuccess r c) (goalsKey r) =
      map_option (\<lambda>q. q\<lparr>isInvalidated := True\<rparr>) (queries c (goalsKey r)) \<and>
    queries (onSuccess r c) (todayProgressKey r) = queries c (todayProgressKey r) \<and>
    queries (onSuccess r c) (weekProgressKey r) = queries c (weekProgressKey r) \<and>
    queries (onSuccess r c) k = queries c k"
proof -
  have m: "mutate r g (Returned True) c = onSuccess r (snd (mutationFn r g (Returned True) c))"
    by (simp add: mutate_def mutationFn_def)
  have s: "queries (onSuccess r c) k' =
     (if prefix (goalsKey r) k'
      then map_option (\<lambda>q. q\<lparr>isInvalidated := True\<rparr>) (queries c k')
      else queries c k')" for k'
    by (simp add: onSuccess_def toast_def invalidateQueries_def goalsKey_def)
  have a: "queries (mutate r g (Returned True) c) (goalsKey r) =
      map_option (\<lambda>q. q\<lparr>isInvalidated := True\<rparr>) (queries c (goalsKey r)) \<and>
    queries (mutate r g (Returned True) c) (todayProgressKey r) = queries c (todayProgressKey r) \<and>
    queries (mutate r g (Returned True) c) (weekProgressKey r) = queries c (weekProgressKey r) \<and>
    queries (mutate r g (Returned True) c) k = queries c k \<and>
    toasts (mutate r g (Returned True) c) =
      toasts c @ [\<lparr>toast_title = ''Goal Deleted'',
                   description = ''Your goal has been deleted successfully.'',
                   variant = None\<rparr>]"
    using assms
    by (simp add: queries_mutate_resolved toasts_mutate_resolved progress_keys_not_goals)
  have b: "queries (onSuccess r c) (goalsKey r) =
      map_option (\<lambda>q. q\<lparr>isInvalidated := True\<rparr>) (queries c (goalsKey r)) \<and>
    queries (onSuccess r c) (todayProgressKey r) = queries c (todayProgressKey r) \<and>
    queries (onSuccess r c) (weekProgressKey r) = queries c (weekProgressKey r) \<and>
    queries (onSuccess r c) k = queries c k"
    using assms by (simp add: s progress_keys_not_goals)
  from m a b show ?thesis by blast
qed

text \<open>Claim C7 at a cache holding the goals and the today-progress queries.\<close>

theorem delete_success_invalidates_goals_only_witness:
  "\<not> prefix (goalsKey ''s1'') [''/api/students''] \<and>
   queries (mutate ''s1'' (Fin 1) (Returned True)
       \<lparr>queries = [goalsKey ''s1'' \<mapsto> \<lparr>data = Some (GoalsData []), isInvalidated = False\<rparr>,
                    todayProgressKey ''s1'' \<mapsto>
                      \<lparr>data = Some (TodayData \<lparr>completed_today = Fin 3\<rparr>), isInvalidated = False\<rparr>],
        toasts = [], requests = []\<rparr>) (todayProgressKey ''s1'') =
     Some \<lparr>data = Some (TodayData \<lparr>completed_today = Fin 3\<rparr>), isInvalidated = False\<rparr> \<and>
   queries (mutate ''s1'' (Fin 1) (Returned True)
       \<lparr>queries = [goalsKey ''s1'' \<mapsto> \<lparr>data = Some (GoalsData []), isInvalidated = False\<rparr>,
                    todayProgressKey ''s1'' \<mapsto>
                      \<lparr>data = Some (TodayData \<lparr>completed_today = Fin 3\<rparr>), isInvalidated = False\<rparr>],
        toasts = [], requests = []\<rparr>) (goalsKey ''s1'') =
     Some \<lparr>data = Some (GoalsData []), isInvalidated = True\<rparr>"
proof -
  have h: "\<not> prefix (goalsKey ''s1'') [''/api/students'']"
    by (simp add: goalsKey_def)
  note t = delete_success_invalidates_goals_only [OF h, of "Fin 1"
      "\<lparr>queries = [goalsKey ''s1'' \<mapsto> \<lparr>data = Some (GoalsData []), isInvalidated = False\<rparr>,
                    todayProgressKey ''s1'' \<mapsto>
                      \<lparr>data = Some (TodayData \<lparr>completed_today = Fin 3\<rparr>), isInvalidated = False\<rparr>],
        toasts = [], requests = []\<rparr>"]
  have d: "goalsKey ''s1'' \<noteq> todayProgressKey ''s1''"
    by (simp add: goalsKey_def todayProgressKey_def)
  show ?thesis
    using h t [THEN conjunct2, THEN conjunct1]
      t [THEN conjunct2, THEN conjunct2, THEN conjunct1] d
    by simp
qed

text \<open>
  Claim C8: when the delete fails (the request throws or its body does not parse) the
  mutation runs \<open>onError\<close> after the request, and \<open>onError\<close> shows the error notification
  and nothing else: no query is invalidated or changed, so the component renders the same
  goals as before; one request was sent (no retry), and sending it changed no query (no
  optimistic update to roll back).
\<close>

theorem delete_failure_only_notifies:
  assumes "api \<noteq> Returned True"
  shows "mutate r g api c = onError (snd (mutationFn r g api c)) \<and>
    queries (mutate r g api c) = queries c \<and>
    toasts (mutate r g api c) =
      toasts c @ [\<lparr>toast_title = ''Error'',
                   description = ''Failed to delete goal. Please try again.'',
                   variant = Some ''destructive''\<rparr>] \<and>
    requests (mutate r g api c) =
      requests c @ [\<lparr>http_method = ''DELETE'', student = r, goal_ref = g\<rparr>] \<and>
    render r (mutate r g api c) = render r c \<and>
    queries (snd (mutationFn r g api c)) = queries c \<and>
    queries (onError c) = queries c \<and>
    requests (onError c) = requests c \<and>
    render r (onError c) = render r c"
proof -
  have q: "queries (mutate r g api c) = queries c"
    using assms by (simp add: mutate_rejected toast_def)
  then have r1: "render r (mutate r g api c) = render r c" by (rule render_cong)
  have qe: "queries (onError c) = queries c" by (simp add: onError_def toast_def)
  then have r2: "render r (onError c) = render r c" by (rule render_cong)
  have m: "mutate r g api c = onError (snd (mutationFn r g api c))"
    using assms by (simp add: mutate_def mutationFn_def)
  have a: "toasts (mutate r g api c) =
      toasts c @ [\<lparr>toast_title = ''Error'',
                   description = ''Failed to delete goal. Please try again.'',
                   variant = Some ''destructive''\<rparr>] \<and>
    requests (mutate r g api c) =
      requests c @ [\<lparr>http_method = ''DELETE'', student = r, goal_ref = g\<rparr>]"
    using assms by (simp add: mutate_rejected toast_def)
  have b: "queries (snd (mutationFn r g api c)) = queries c \<and> requests (onError c) = requests c"
    by (simp add: mutationFn_def onError_def toast_def)
  from m q a r1 b qe r2 show ?thesis by blast
qed

text \<open>Claim C8 at a request that threw.\<close>

theorem delete_failure_only_notifies_witness:
  "Threw \<noteq> Returned True \<and>
   queries (mutate ''s1'' (Fin 1) Threw \<lparr>queries = Map.empty, toasts = [], requests = []\<rparr>) =
     Map.empty \<and>
   toasts (mutate ''s1'' (Fin 1) Threw \<lparr>queries = Map.empty, toasts = [], requests = []\<rparr>) =
     [\<lparr>toast_title = ''Error'', description = ''Failed to delete goal. Please try again.'',
       variant = Some ''destructive''\<rparr>] \<and>
   requests (mutate ''s1'' (Fin 1) Threw \<lparr>queries = Map.empty, toasts = [], requests = []\<rparr>) =
     [\<lparr>http_method = ''DELETE'', student = ''s1'', goal_ref = Fin 1\<rparr>]"
proof -
  have h: "Threw \<noteq> Returned True" by simp
  note t = delete_failure_only_notifies [OF h, of "''s1''" "Fin 1"
      "\<lparr>queries = Map.empty, toasts = [], requests = []\<rparr>", THEN conjunct2]
  show ?thesis
    using h t [THEN conjunct1] t [THEN conjunct2, THEN conjunct1]
      t [THEN conjunct2, THEN conjunct2, THEN conjunct1]
    by simp
qed

text \<open>
  Claim C9: with an empty goals list, and equally with no goals data at all, the
  component renders the empty-state message and no cards; the two outputs are equal.
\<close>

theorem no_goals_renders_empty_state:
  "StudentGoals (Some []) tp wp =
     EmptyState ''No goals set yet'' ''Set a daily or weekly goal to track your progress'' \<and>
   StudentGoals None tp wp = StudentGoals (Some []) tp wp \<and>
   cards (StudentGoals (Some []) tp wp) = [] \<and>
   cards (StudentGoals None tp wp) = []"
  by (simp add: StudentGoals_def)

text \<open>Claim C9 with no progress data.\<close>

theorem no_goals_renders_empty_state_witness:
  "StudentGoals None None None = StudentGoals (Some []) None None \<and>
   cards (StudentGoals None None None) = []"
  using no_goals_renders_empty_state [of None None] by blast

end
